theory Spec2Isabelle
  imports Main "HOL-Library.Char_ord" "HOL-Library.List_Lexorder" "HOL-Library.Multiset"
begin

section \<open>JavaScript values and built-ins the plugin relies on\<close>

text \<open>
  A JavaScript \<open>number\<close> as the plugin meets it: line counts parsed by \<open>parseInt\<close>,
  which yields an integer or \<open>NaN\<close>. Comparisons with \<open>NaN\<close> are false and arithmetic
  on \<open>NaN\<close> gives \<open>NaN\<close>.
\<close>

datatype number = Number int | NaN

fun number_less :: "number \<Rightarrow> number \<Rightarrow> bool" where
  "number_less (Number a) (Number b) = (a < b)"
| "number_less _ _ = False"

fun number_minus :: "number \<Rightarrow> number \<Rightarrow> number" where
  "number_minus (Number a) (Number b) = Number (a - b)"
| "number_minus _ _ = NaN"

text \<open>Decimal rendering of an integer, \<open>Number.prototype.toString()\<close>.\<close>

definition digit_char :: "nat \<Rightarrow> char" where
  "digit_char d = ''0123456789'' ! d"

fun digits :: "nat \<Rightarrow> string" where
  "digits n = (if n < 10 then [digit_char n] else digits (n div 10) @ [digit_char (n mod 10)])"

declare digits.simps [simp del]

definition toString :: "int \<Rightarrow> string" where
  "toString i = (if i < 0 then CHR ''-'' # digits (nat (- i)) else digits (nat i))"

text \<open>\<open>Array.prototype.join(sep)\<close> on an array of strings.\<close>

fun join :: "string \<Rightarrow> string list \<Rightarrow> string" where
  "join sep [] = []"
| "join sep [x] = x"
| "join sep (x # y # ys) = x @ sep @ join sep (y # ys)"

text \<open>
  \<open>String.prototype.split(sep)\<close> for a one-character separator: the pieces between the
  separators, empty pieces included; the empty string splits into one empty piece.
\<close>

fun split :: "char \<Rightarrow> string \<Rightarrow> string list" where
  "split sep [] = [[]]"
| "split sep (c # cs) =
     (if c = sep then [] # split sep cs
      else (case split sep cs of
              [] \<Rightarrow> [[c]]
            | w # ws \<Rightarrow> (c # w) # ws))"

definition startsWith :: "string \<Rightarrow> string \<Rightarrow> bool" where
  "startsWith s p = (take (length p) s = p)"

text \<open>\<open>String.prototype.includes(sub)\<close>: \<open>sub\<close> occurs at some position of \<open>s\<close>.\<close>

fun string_includes :: "string \<Rightarrow> string \<Rightarrow> bool" where
  "string_includes [] sub = (sub = [])"
| "string_includes (c # cs) sub = (startsWith (c # cs) sub \<or> string_includes cs sub)"

text \<open>\<open>Array.prototype.some(p)\<close>.\<close>

fun some :: "('a \<Rightarrow> bool) \<Rightarrow> 'a list \<Rightarrow> bool" where
  "some p [] = False"
| "some p (x # xs) = (p x \<or> some p xs)"

text \<open>
  \<open>Array.prototype.slice(0, end)\<close>: a negative \<open>end\<close> counts from the end of the array.
\<close>

definition slice0 :: "'a list \<Rightarrow> int \<Rightarrow> 'a list" where
  "slice0 xs e = (if e < 0 then take (nat (int (length xs) + e)) xs else take (nat e) xs)"

text \<open>
  \<open>String.prototype.localeCompare\<close> is the host's collation, which depends on the locale
  and is not the code-unit order in general. A collation compares two strings by their
  collation keys, so it is modelled by a key function \<open>ckey\<close> into a linear order; the
  result is negative, zero or positive. The byte order is the instance \<open>ckey = id\<close>.
\<close>

definition localeCompare :: "(string \<Rightarrow> 'k::linorder) \<Rightarrow> string \<Rightarrow> string \<Rightarrow> int" where
  "localeCompare ckey a b = (if ckey a < ckey b then - 1 else if ckey b < ckey a then 1 else 0)"

text \<open>
  \<open>Array.prototype.sort(cmp)\<close> is stable: \<open>x\<close> stays before \<open>y\<close> unless \<open>cmp x y > 0\<close>.
  With a consistent comparator every stable sort returns the same array; it is written
  here as a stable insertion sort.
\<close>

fun sort_insert :: "('a \<Rightarrow> 'a \<Rightarrow> int) \<Rightarrow> 'a \<Rightarrow> 'a list \<Rightarrow> 'a list" where
  "sort_insert cmp x [] = [x]"
| "sort_insert cmp x (y # ys) =
     (if cmp x y \<le> 0 then x # y # ys else y # sort_insert cmp x ys)"

definition array_sort :: "('a \<Rightarrow> 'a \<Rightarrow> int) \<Rightarrow> 'a list \<Rightarrow> 'a list" where
  "array_sort cmp xs = foldr (sort_insert cmp) xs []"

section \<open>commit-builder.ts\<close>

record FileDiffStat =
  path :: string
  additions :: number
  deletions :: number
  netChange :: number

text \<open>
  \<open>maxFiles\<close> is optional (\<open>None\<close> is \<open>undefined\<close>); when present it is an integer, the
  setting \<open>maxFilesInCommitMessage\<close>.
\<close>

record CommitMessageOptions =
  files :: "FileDiffStat list"
  maxFiles :: "int option"

definition hasNetDeletions :: "FileDiffStat \<Rightarrow> bool" where
  "hasNetDeletions stat = number_less (netChange stat) (Number 0)"

definition formatFileName :: "FileDiffStat \<Rightarrow> string" where
  "formatFileName stat = (if hasNetDeletions stat then path stat @ '' [DELETES]'' else path stat)"

text \<open>\<open>[...files].sort((a, b) => a.path.localeCompare(b.path))\<close>, as both builders sort.\<close>

definition sortByPath :: "(string \<Rightarrow> 'k::linorder) \<Rightarrow> FileDiffStat list \<Rightarrow> FileDiffStat list" where
  "sortByPath ckey fs = array_sort (\<lambda>a b. localeCompare ckey (path a) (path b)) fs"

definition buildCommitMessage :: "(string \<Rightarrow> 'k::linorder) \<Rightarrow> CommitMessageOptions \<Rightarrow> string" where
  "buildCommitMessage ckey options =
     (let fs = files options;
          maxF = (case maxFiles options of None \<Rightarrow> 5 | Some m \<Rightarrow> m)
      in if length fs = 0 then ''chore: update files''
         else
           let sortedFiles = sortByPath ckey fs;
               formattedFiles = map formatFileName sortedFiles;
               fileList =
                 (if int (length formattedFiles) \<le> maxF then join '', '' formattedFiles
                  else
                    let shown = slice0 formattedFiles maxF;
                        remaining = int (length formattedFiles) - maxF
                    in join '', '' shown @ '' and '' @ toString remaining @ '' more'')
           in ''chore: update '' @ fileList)"

definition buildSingleFileCommitMessage :: "FileDiffStat \<Rightarrow> string" where
  "buildSingleFileCommitMessage stat = ''chore: update '' @ formatFileName stat"

definition buildHiddenFilesCommitMessage :: "(string \<Rightarrow> 'k::linorder) \<Rightarrow> FileDiffStat list \<Rightarrow> string" where
  "buildHiddenFilesCommitMessage ckey fs =
     (if length fs = 0 then ''chore: update hidden files''
      else
        let sortedFiles = sortByPath ckey fs;
            formattedFiles = map formatFileName sortedFiles;
            fileList = join '', '' formattedFiles
        in ''chore: update hidden files ('' @ fileList @ '')'')"

text \<open>
  \<open>categorizeFiles\<close>: the loop pushes each file onto \<open>hidden\<close> or \<open>regular\<close>; the two
  arrays are the loop state.
\<close>

record FileGroup =
  hidden :: "FileDiffStat list"
  regular :: "FileDiffStat list"

definition isHiddenPath :: "string \<Rightarrow> bool" where
  "isHiddenPath p = (let pathParts = split CHR ''/'' p in some (\<lambda>part. startsWith part ''.'') pathParts)"

fun categorizeLoop :: "FileDiffStat list \<Rightarrow> FileGroup \<Rightarrow> FileGroup" where
  "categorizeLoop [] g = g"
| "categorizeLoop (file # rest) g =
     (if isHiddenPath (path file)
      then categorizeLoop rest (g\<lparr>hidden := hidden g @ [file]\<rparr>)
      else categorizeLoop rest (g\<lparr>regular := regular g @ [file]\<rparr>))"

definition categorizeFiles :: "FileDiffStat list \<Rightarrow> FileGroup" where
  "categorizeFiles fs = categorizeLoop fs \<lparr>hidden = [], regular = []\<rparr>"



text \<open>The byte order on paths, the collation the specification names.\<close>

definition byteOrder :: "string \<Rightarrow> string" where
  "byteOrder s = s"

section \<open>More built-ins: trim and parseInt\<close>

text \<open>
  Strings are byte strings here, so the white space \<open>trim\<close> and \<open>parseInt\<close> skip is the
  ASCII white space (tab, line feed, vertical tab, form feed, carriage return, space).
\<close>

definition isWhiteSpace :: "char \<Rightarrow> bool" where
  "isWhiteSpace c = (c \<in> set [CHR 0x09, CHR 0x0A, CHR 0x0B, CHR 0x0C, CHR 0x0D, CHR 0x20])"

definition trim :: "string \<Rightarrow> string" where
  "trim s = rev (dropWhile isWhiteSpace (rev (dropWhile isWhiteSpace s)))"

definition isDigit :: "char \<Rightarrow> bool" where
  "isDigit c = (c \<in> set ''0123456789'')"

definition digitValue :: "char \<Rightarrow> nat" where
  "digitValue c = of_char c - 48"

definition decimalValue :: "string \<Rightarrow> nat" where
  "decimalValue ds = foldl (\<lambda>a c. 10 * a + digitValue c) 0 ds"

text \<open>
  \<open>parseInt(s, 10)\<close>: leading white space and one sign are skipped, the longest run of
  digits is read, and no digit at all gives \<open>NaN\<close>. \<open>None\<close> is \<open>undefined\<close>, whose
  string form holds no digit.
\<close>

definition parseInt :: "string option \<Rightarrow> number" where
  "parseInt str =
     (case str of
        None \<Rightarrow> NaN
      | Some s \<Rightarrow>
          (let t = dropWhile isWhiteSpace s;
               neg = (case t of [] \<Rightarrow> False | c # _ \<Rightarrow> c = CHR ''-'');
               u = (case t of [] \<Rightarrow> [] | c # r \<Rightarrow> if c = CHR ''-'' \<or> c = CHR ''+'' then r else t);
               ds = takeWhile isDigit u
           in if ds = [] then NaN
              else Number (if neg then - int (decimalValue ds) else int (decimalValue ds))))"

section \<open>git-engine.ts\<close>

text \<open>
  An \<open>Error\<close> is modelled by its message. \<open>simple-git\<close> is the library behind \<open>this.git\<close>;
  its four operations that \<open>getDiffStats\<close> and \<open>stageAndCommit\<close> call are taken as
  parameters over a repository state \<open>'g\<close>, each returning the value or the thrown error.
\<close>

type_synonym error = string

record StatusResult =
  tracking :: "string option"
  not_added :: "string list"

record 'g SimpleGit =
  git_status :: "'g \<Rightarrow> (error + StatusResult) \<times> 'g"
  git_raw :: "string list \<Rightarrow> 'g \<Rightarrow> (error + string) \<times> 'g"
  git_add :: "string \<Rightarrow> 'g \<Rightarrow> (error + unit) \<times> 'g"
  git_commit :: "string \<Rightarrow> 'g \<Rightarrow> (error + unit) \<times> 'g"

datatype GitState = State_idle | State_committing | State_error

record GitStatus =
  state :: GitState
  lastCommitTime :: "int option"
  lastCommitMessage :: "string option"

text \<open>
  The engine's state: the repository behind \<open>this.git\<close>, \<open>currentStatus\<close>, the clock read
  by \<open>Date.now()\<close>, and what the two callbacks of the configuration received.
\<close>

record 'g EngineState =
  repoState :: 'g
  currentStatus :: GitStatus
  now :: int
  statusChanges :: "GitStatus list"
  reportedErrors :: "error list"

definition initialStatus :: GitStatus where
  "initialStatus = \<lparr>state = State_idle, lastCommitTime = None, lastCommitMessage = None\<rparr>"

definition updateStatus :: "(GitStatus \<Rightarrow> GitStatus) \<Rightarrow> 'g EngineState \<Rightarrow> 'g EngineState" where
  "updateStatus updates s =
     (let st = updates (currentStatus s)
      in s\<lparr>currentStatus := st, statusChanges := statusChanges s @ [st]\<rparr>)"

definition handleError :: "error \<Rightarrow> 'g EngineState \<Rightarrow> 'g EngineState" where
  "handleError e s = s\<lparr>reportedErrors := reportedErrors s @ [e]\<rparr>"

definition zeroStat :: "string \<Rightarrow> FileDiffStat" where
  "zeroStat p = \<lparr>path = p, additions = Number 0, deletions = Number 0, netChange = Number 0\<rparr>"

text \<open>
  \<open>const [addStr, delStr, path] = line.split('\t')\<close>: a field the line does not have is
  \<open>undefined\<close> (\<open>None\<close>). Git writes three fields on every numstat line; for a line with
  fewer, the path of the entry is \<open>undefined\<close>, which the record's \<open>string\<close> cannot hold
  and which is written as the empty string.
\<close>

definition field :: "string list \<Rightarrow> nat \<Rightarrow> string option" where
  "field parts i = (if i < length parts then Some (parts ! i) else None)"

definition isBinaryLine :: "string \<Rightarrow> bool" where
  "isBinaryLine line =
     (let parts = split CHR 0x09 line
      in field parts 0 = Some ''-'' \<or> field parts 1 = Some ''-'')"

definition numstatEntry :: "string \<Rightarrow> FileDiffStat" where
  "numstatEntry line =
     (let parts = split CHR 0x09 line;
          addStr = field parts 0;
          delStr = field parts 1;
          p = (case field parts 2 of None \<Rightarrow> [] | Some q \<Rightarrow> q)
      in if addStr = Some ''-'' \<or> delStr = Some ''-''
         then \<lparr>path = p, additions = Number 0, deletions = Number 0, netChange = Number 0\<rparr>
         else
           let adds = parseInt addStr;
               dels = parseInt delStr
           in \<lparr>path = p, additions = adds, deletions = dels, netChange = number_minus adds dels\<rparr>)"

fun numstatLoop :: "string list \<Rightarrow> FileDiffStat list \<Rightarrow> FileDiffStat list" where
  "numstatLoop [] stats = stats"
| "numstatLoop (line # rest) stats = numstatLoop rest (stats @ [numstatEntry line])"

fun untrackedLoop :: "string list \<Rightarrow> FileDiffStat list \<Rightarrow> FileDiffStat list" where
  "untrackedLoop [] stats = stats"
| "untrackedLoop (file # rest) stats =
     untrackedLoop rest
       (stats @ [\<lparr>path = file, additions = Number 0, deletions = Number 0, netChange = Number 0\<rparr>])"

definition numstatLines :: "string \<Rightarrow> string list" where
  "numstatLines diffOutput = filter (\<lambda>line. line \<noteq> []) (split CHR 0x0A (trim diffOutput))"

definition falsy :: "string option \<Rightarrow> bool" where
  "falsy v = (v = None \<or> v = Some [])"

definition GitEngine_getDiffStats ::
  "'g SimpleGit \<Rightarrow> 'g EngineState \<Rightarrow> (error + FileDiffStat list) \<times> 'g EngineState" where
  "GitEngine_getDiffStats git s =
     (case git_status git (repoState s) of
        (Inl e, g1) \<Rightarrow> (Inl e, handleError e (s\<lparr>repoState := g1\<rparr>))
      | (Inr status, g1) \<Rightarrow>
          if falsy (tracking status)
          then (Inr (untrackedLoop (not_added status) []), s\<lparr>repoState := g1\<rparr>)
          else
            (case git_raw git [''diff'', ''--numstat'', ''HEAD''] g1 of
               (Inl e, g2) \<Rightarrow> (Inl e, handleError e (s\<lparr>repoState := g2\<rparr>))
             | (Inr diffOutput, g2) \<Rightarrow>
                 (let stats = numstatLoop (numstatLines diffOutput) [];
                      stats' = untrackedLoop (not_added status) stats
                  in (Inr stats', s\<lparr>repoState := g2\<rparr>))))"

definition stageAndCommit_failed :: "error \<Rightarrow> 'g EngineState \<Rightarrow> (error + unit) \<times> 'g EngineState" where
  "stageAndCommit_failed e s = (Inl e, handleError e (updateStatus (\<lambda>st. st\<lparr>state := State_error\<rparr>) s))"

definition GitEngine_stageAndCommit ::
  "'g SimpleGit \<Rightarrow> string \<Rightarrow> 'g EngineState \<Rightarrow> (error + unit) \<times> 'g EngineState" where
  "GitEngine_stageAndCommit git message s =
     (let s1 = updateStatus (\<lambda>st. st\<lparr>state := State_committing\<rparr>) s
      in case git_add git ''-A'' (repoState s1) of
           (Inl e, g1) \<Rightarrow> stageAndCommit_failed e (s1\<lparr>repoState := g1\<rparr>)
         | (Inr _, g1) \<Rightarrow>
             (case git_commit git message g1 of
                (Inl e, g2) \<Rightarrow> stageAndCommit_failed e (s1\<lparr>repoState := g2\<rparr>)
              | (Inr _, g2) \<Rightarrow>
                  (Inr (),
                   updateStatus
                     (\<lambda>st. st\<lparr>state := State_idle, lastCommitTime := Some (now s1),
                              lastCommitMessage := Some message\<rparr>)
                     (s1\<lparr>repoState := g2\<rparr>))))"

section \<open>main.ts: the plugin and its engine\<close>

datatype CommitMode = Mode_batch | Mode_individual

datatype HiddenFilesHandling = Hidden_group | Hidden_separate | Hidden_never | Hidden_gitignore_only

text \<open>The settings that the commit path reads.\<close>

record LocalGitSettings =
  maxFilesInCommitMessage :: int
  commitMode :: CommitMode
  hiddenFilesHandling :: HiddenFilesHandling
  debugLogging :: bool

text \<open>
  The methods of \<open>this.gitEngine\<close> that the commit path awaits, over the engine's state
  \<open>'w\<close>; each returns its value or the error it throws. \<open>getDiffStats\<close> and
  \<open>stageAndCommit\<close> are \<open>GitEngine_getDiffStats\<close> and \<open>GitEngine_stageAndCommit\<close> above;
  \<open>filterIgnoredFiles\<close> and \<open>stageAndCommitFiles\<close> are not among the methods of
  \<open>git-engine.ts\<close> modelled above, so the plugin is modelled over any engine.
\<close>

record 'w GitEngine =
  getDiffStats :: "'w \<Rightarrow> (error + FileDiffStat list) \<times> 'w"
  filterIgnoredFiles :: "FileDiffStat list \<Rightarrow> 'w \<Rightarrow> (error + FileDiffStat list) \<times> 'w"
  stageAndCommit :: "string \<Rightarrow> 'w \<Rightarrow> (error + unit) \<times> 'w"
  stageAndCommitFiles :: "string list \<Rightarrow> string \<Rightarrow> 'w \<Rightarrow> (error + unit) \<times> 'w"

datatype EngineCall =
  Call_getDiffStats
| Call_filterIgnoredFiles "FileDiffStat list"
| Call_stageAndCommit string
| Call_stageAndCommitFiles "string list" string

text \<open>
  The plugin: its settings, its engine (\<open>null\<close> until \<open>onload\<close> creates it), the guard
  \<open>commitInProgress\<close>, the notices shown and the console lines written so far, the
  engine's state, and \<open>calls\<close>, the record of every engine method the plugin has called,
  in order.
\<close>

record 'w LocalGitPlugin =
  settings :: LocalGitSettings
  gitEngine :: "'w GitEngine option"
  commitInProgress :: bool
  notices :: "string list"
  console :: "string list"
  calls :: "EngineCall list"
  world :: 'w

definition newNotice :: "string \<Rightarrow> 'w LocalGitPlugin \<Rightarrow> 'w LocalGitPlugin" where
  "newNotice text p = p\<lparr>notices := notices p @ [text]\<rparr>"

definition consoleLog :: "string \<Rightarrow> 'w LocalGitPlugin \<Rightarrow> 'w LocalGitPlugin" where
  "consoleLog text p = p\<lparr>console := console p @ [text]\<rparr>"

definition callEngine ::
  "EngineCall \<Rightarrow> ('w \<Rightarrow> (error + 'a) \<times> 'w) \<Rightarrow> 'w LocalGitPlugin \<Rightarrow> (error + 'a) \<times> 'w LocalGitPlugin" where
  "callEngine c method p =
     (case method (world p) of (r, w') \<Rightarrow> (r, p\<lparr>calls := calls p @ [c], world := w'\<rparr>))"

section \<open>Asynchronous code\<close>

text \<open>
  An \<open>async\<close> function of the plugin is a tree of its steps: it settles with a value or a
  thrown error (\<open>Return\<close>), changes the plugin (\<open>Update\<close>), goes on according to the plugin
  as it is at that moment (\<open>Read\<close>), or awaits a call to the engine and goes on with what
  the call gives or throws (\<open>AwaitStats\<close> for a call that gives diff stats, \<open>AwaitUnit\<close>
  for one that gives nothing). An await is where other callbacks of the plugin can run
  before the function resumes.
\<close>

datatype ('w, 'a) Async =
    Return "error + 'a"
  | Update "'w LocalGitPlugin \<Rightarrow> 'w LocalGitPlugin" "('w, 'a) Async"
  | Read "'w LocalGitPlugin \<Rightarrow> ('w, 'a) Async"
  | AwaitStats EngineCall "'w \<Rightarrow> (error + FileDiffStat list) \<times> 'w"
      "error + FileDiffStat list \<Rightarrow> ('w, 'a) Async"
  | AwaitUnit EngineCall "'w \<Rightarrow> (error + unit) \<times> 'w" "error + unit \<Rightarrow> ('w, 'a) Async"

abbreviation resolved :: "'a \<Rightarrow> ('w, 'a) Async" where
  "resolved x \<equiv> Return (Inr x)"

text \<open>\<open>await engine.method(...)\<close>: the value of the call, or its error thrown on.\<close>

definition awaitStats ::
  "EngineCall \<Rightarrow> ('w \<Rightarrow> (error + FileDiffStat list) \<times> 'w) \<Rightarrow> ('w, FileDiffStat list) Async" where
  "awaitStats c method = AwaitStats c method Return"

definition awaitUnit :: "EngineCall \<Rightarrow> ('w \<Rightarrow> (error + unit) \<times> 'w) \<Rightarrow> ('w, unit) Async" where
  "awaitUnit c method = AwaitUnit c method Return"

text \<open>Sequencing: the rest runs on the value; a thrown error skips it.\<close>

primrec andThen :: "('w, 'a) Async \<Rightarrow> ('a \<Rightarrow> ('w, 'b) Async) \<Rightarrow> ('w, 'b) Async" where
  "andThen (Return r) rest = (case r of Inl e \<Rightarrow> Return (Inl e) | Inr x \<Rightarrow> rest x)"
| "andThen (Update u a) rest = Update u (andThen a rest)"
| "andThen (Read k) rest = Read (\<lambda>p. andThen (k p) rest)"
| "andThen (AwaitStats c m k) rest = AwaitStats c m (\<lambda>r. andThen (k r) rest)"
| "andThen (AwaitUnit c m k) rest = AwaitUnit c m (\<lambda>r. andThen (k r) rest)"

text \<open>
  \<open>try { body } catch (error) { handler } finally { finalizer }\<close> for a handler and a
  finalizer that do not throw: when the body has settled, the handler runs if it threw,
  then the finalizer runs, and the whole settles without error.
\<close>

primrec tryCatchFinally ::
  "('w, 'a) Async \<Rightarrow> (error \<Rightarrow> 'w LocalGitPlugin \<Rightarrow> 'w LocalGitPlugin)
   \<Rightarrow> ('w LocalGitPlugin \<Rightarrow> 'w LocalGitPlugin) \<Rightarrow> ('w, unit) Async" where
  "tryCatchFinally (Return r) handler finalizer =
     Update (\<lambda>p. finalizer (case r of Inl e \<Rightarrow> handler e p | Inr _ \<Rightarrow> p)) (resolved ())"
| "tryCatchFinally (Update u a) handler finalizer = Update u (tryCatchFinally a handler finalizer)"
| "tryCatchFinally (Read k) handler finalizer = Read (\<lambda>p. tryCatchFinally (k p) handler finalizer)"
| "tryCatchFinally (AwaitStats c m k) handler finalizer =
     AwaitStats c m (\<lambda>r. tryCatchFinally (k r) handler finalizer)"
| "tryCatchFinally (AwaitUnit c m k) handler finalizer =
     AwaitUnit c m (\<lambda>r. tryCatchFinally (k r) handler finalizer)"

section \<open>main.ts: the commit orchestrator\<close>

definition filterFilesBySettings :: "FileDiffStat list \<Rightarrow> ('w, FileDiffStat list) Async" where
  "filterFilesBySettings stats =
     Read (\<lambda>p.
       case gitEngine p of
         None \<Rightarrow> resolved stats
       | Some engine \<Rightarrow>
           if hiddenFilesHandling (settings p) = Hidden_gitignore_only
           then awaitStats (Call_filterIgnoredFiles stats) (filterIgnoredFiles engine stats)
           else if hiddenFilesHandling (settings p) = Hidden_never
           then resolved (filter (\<lambda>stat. \<not> isHiddenPath (path stat)) stats)
           else resolved stats)"

definition performBatchCommit ::
  "(string \<Rightarrow> 'k::linorder) \<Rightarrow> FileDiffStat list \<Rightarrow> string \<Rightarrow> ('w, unit) Async" where
  "performBatchCommit ckey stats triggeredBy =
     Read (\<lambda>p.
       case gitEngine p of
         None \<Rightarrow> resolved ()
       | Some engine \<Rightarrow>
           andThen
             (if hiddenFilesHandling (settings p) = Hidden_separate
              then
                (let g = categorizeFiles stats;
                     hid = hidden g;
                     reg = regular g
                 in andThen
                      (if length reg > 0
                       then
                         (let message = buildCommitMessage ckey
                                \<lparr>files = reg, maxFiles = Some (maxFilesInCommitMessage (settings p))\<rparr>
                          in awaitUnit (Call_stageAndCommitFiles (map path reg) message)
                               (stageAndCommitFiles engine (map path reg) message))
                       else resolved ())
                      (\<lambda>_. andThen
                         (if length hid > 0
                          then
                            (let message = buildHiddenFilesCommitMessage ckey hid
                             in awaitUnit (Call_stageAndCommitFiles (map path hid) message)
                                  (stageAndCommitFiles engine (map path hid) message))
                          else resolved ())
                         (\<lambda>_. if triggeredBy = ''manual''
                              then
                                (let commitCount =
                                       (if length reg > 0 then 1 else 0)
                                       + (if length hid > 0 then 1 else (0::int))
                                 in Update
                                      (newNotice
                                         (''Committed '' @ toString (int (length stats))
                                            @ '' file(s) in '' @ toString commitCount @ '' commit(s)''))
                                      (resolved ()))
                              else resolved ())))
              else
                (let message = buildCommitMessage ckey
                       \<lparr>files = stats, maxFiles = Some (maxFilesInCommitMessage (settings p))\<rparr>
                 in andThen (awaitUnit (Call_stageAndCommit message) (stageAndCommit engine message))
                      (\<lambda>_. if triggeredBy = ''manual''
                           then Update
                                  (newNotice (''Committed '' @ toString (int (length stats)) @ '' file(s)''))
                                  (resolved ())
                           else resolved ())))
             (\<lambda>_. Read (\<lambda>p'.
                if debugLogging (settings p')
                then Update
                       (consoleLog (''[Local Git] Batch commit ('' @ triggeredBy @ '') completed''))
                       (resolved ())
                else resolved ())))"

text \<open>The loop \<open>for (const stat of ...)\<close> of \<open>performIndividualCommits\<close>, with its counter.\<close>

fun commitEach :: "'w GitEngine \<Rightarrow> FileDiffStat list \<Rightarrow> int \<Rightarrow> ('w, int) Async" where
  "commitEach engine [] committedCount = resolved committedCount"
| "commitEach engine (stat # rest) committedCount =
     (let message = buildSingleFileCommitMessage stat
      in andThen
           (awaitUnit (Call_stageAndCommitFiles [path stat] message)
              (stageAndCommitFiles engine [path stat] message))
           (\<lambda>_. commitEach engine rest (committedCount + 1)))"

definition performIndividualCommits ::
  "(string \<Rightarrow> 'k::linorder) \<Rightarrow> FileDiffStat list \<Rightarrow> string \<Rightarrow> ('w, unit) Async" where
  "performIndividualCommits ckey stats triggeredBy =
     Read (\<lambda>p.
       case gitEngine p of
         None \<Rightarrow> resolved ()
       | Some engine \<Rightarrow>
           andThen
             (if hiddenFilesHandling (settings p) = Hidden_separate
              then
                (let g = categorizeFiles stats;
                     hid = hidden g;
                     reg = regular g
                 in andThen (commitEach engine reg 0)
                      (\<lambda>committedCount.
                         if length hid > 0
                         then
                           (let message = buildHiddenFilesCommitMessage ckey hid
                            in andThen
                                 (awaitUnit (Call_stageAndCommitFiles (map path hid) message)
                                    (stageAndCommitFiles engine (map path hid) message))
                                 (\<lambda>_. resolved (committedCount + 1)))
                         else resolved committedCount))
              else commitEach engine stats 0)
             (\<lambda>committedCount.
                andThen
                  (if triggeredBy = ''manual''
                   then Update
                          (newNotice
                             (''Created '' @ toString committedCount @ '' commit(s) for ''
                                @ toString (int (length stats)) @ '' file(s)''))
                          (resolved ())
                   else resolved ())
                  (\<lambda>_. Read (\<lambda>p'.
                     if debugLogging (settings p')
                     then Update
                            (consoleLog
                               (''[Local Git] Individual commits ('' @ triggeredBy @ ''): ''
                                  @ toString committedCount @ '' commits''))
                            (resolved ())
                     else resolved ()))))"

text \<open>The \<open>try\<close> block of \<open>performCommit\<close>.\<close>

definition tryCommit ::
  "(string \<Rightarrow> 'k::linorder) \<Rightarrow> 'w GitEngine \<Rightarrow> string \<Rightarrow> ('w, unit) Async" where
  "tryCommit ckey engine triggeredBy =
     andThen (awaitStats Call_getDiffStats (getDiffStats engine))
       (\<lambda>stats.
          andThen (filterFilesBySettings stats)
            (\<lambda>stats'.
               if length stats' = 0
               then (if triggeredBy = ''manual''
                     then Update (newNotice ''No changes to commit'') (resolved ())
                     else resolved ())
               else
                 Read (\<lambda>p.
                   if commitMode (settings p) = Mode_individual
                   then performIndividualCommits ckey stats' triggeredBy
                   else performBatchCommit ckey stats' triggeredBy)))"

text \<open>The \<open>catch\<close> block of \<open>performCommit\<close>.\<close>

definition catchCommit :: "error \<Rightarrow> 'w LocalGitPlugin \<Rightarrow> 'w LocalGitPlugin" where
  "catchCommit errorMsg p =
     (let p1 = consoleLog (''[Local Git] Commit failed: '' @ errorMsg) p
      in if string_includes errorMsg ''not a git repository''
         then newNotice ''Git repository not initialized. Check plugin settings.'' p1
         else if string_includes errorMsg ''permission denied''
         then newNotice ''Permission denied. Check file permissions.'' p1
         else newNotice (''Commit failed: '' @ errorMsg) p1)"

text \<open>The \<open>finally\<close> block of \<open>performCommit\<close>.\<close>

definition finallyCommit :: "'w LocalGitPlugin \<Rightarrow> 'w LocalGitPlugin" where
  "finallyCommit p = p\<lparr>commitInProgress := False\<rparr>"

definition performCommit :: "(string \<Rightarrow> 'k::linorder) \<Rightarrow> string \<Rightarrow> ('w, unit) Async" where
  "performCommit ckey triggeredBy =
     Read (\<lambda>p.
       if commitInProgress p
       then (if triggeredBy = ''manual''
             then Update (newNotice ''Commit already in progress'') (resolved ())
             else resolved ())
       else
         (case gitEngine p of
            None \<Rightarrow> Update (newNotice ''Git engine not initialized'') (resolved ())
          | Some engine \<Rightarrow>
              Update (\<lambda>p. p\<lparr>commitInProgress := True\<rparr>)
                (tryCatchFinally (tryCommit ckey engine triggeredBy) catchCommit finallyCommit)))"

section \<open>Running asynchronous code\<close>

text \<open>
  \<open>run\<close>: the function runs to its end with nothing else in between; each awaited call
  is answered by the engine at once.
\<close>

primrec run :: "('w, 'a) Async \<Rightarrow> 'w LocalGitPlugin \<Rightarrow> (error + 'a) \<times> 'w LocalGitPlugin" where
  "run (Return r) p = (r, p)"
| "run (Update u a) p = run a (u p)"
| "run (Read k) p = run (k p) p"
| "run (AwaitStats c m k) p = (case callEngine c m p of (r, p') \<Rightarrow> run (k r) p')"
| "run (AwaitUnit c m k) p = (case callEngine c m p of (r, p') \<Rightarrow> run (k r) p')"

text \<open>
  The event loop: the function runs up to its next await (\<open>advance\<close>), where the call to
  the engine is issued and the function is suspended; it resumes when the call settles.
  Invocations of \<open>performCommit\<close> (timers, the ribbon icon, the command), settlements of
  pending calls and changes of the settings (the settings tab) arrive as events in any
  order. A settlement names the suspended invocation by its position and carries what
  the engine gave or threw, so the engine answers when and how it likes; the engine's
  own state is not followed here.
\<close>

primrec advance :: "('w, 'a) Async \<Rightarrow> 'w LocalGitPlugin \<Rightarrow> 'w LocalGitPlugin \<times> ('w, 'a) Async" where
  "advance (Return r) p = (p, Return r)"
| "advance (Update u a) p = advance a (u p)"
| "advance (Read k) p = advance (k p) p"
| "advance (AwaitStats c m k) p = (p\<lparr>calls := calls p @ [c]\<rparr>, AwaitStats c m k)"
| "advance (AwaitUnit c m k) p = (p\<lparr>calls := calls p @ [c]\<rparr>, AwaitUnit c m k)"

record 'w EventLoop =
  plugin :: "'w LocalGitPlugin"
  suspended :: "('w, unit) Async list"

datatype Event =
  Invoke string
| StatsSettled nat "error + FileDiffStat list"
| UnitSettled nat "error + unit"
| SettingsChanged LocalGitSettings

definition isSettled :: "('w, 'a) Async \<Rightarrow> bool" where
  "isSettled a = (case a of Return _ \<Rightarrow> True | _ \<Rightarrow> False)"

definition place ::
  "'w LocalGitPlugin \<times> ('w, unit) Async \<Rightarrow> ('w, unit) Async list \<Rightarrow> 'w EventLoop" where
  "place r others =
     (case r of (p, a) \<Rightarrow>
        \<lparr>plugin = p, suspended = (if isSettled a then others else others @ [a])\<rparr>)"

definition withoutTask :: "nat \<Rightarrow> 'a list \<Rightarrow> 'a list" where
  "withoutTask i tasks = take i tasks @ drop (Suc i) tasks"

definition deliver :: "(string \<Rightarrow> 'k::linorder) \<Rightarrow> Event \<Rightarrow> 'w EventLoop \<Rightarrow> 'w EventLoop" where
  "deliver ckey ev s =
     (case ev of
        Invoke triggeredBy \<Rightarrow>
          place (advance (performCommit ckey triggeredBy) (plugin s)) (suspended s)
      | StatsSettled i r \<Rightarrow>
          if i < length (suspended s)
          then (case suspended s ! i of
                  AwaitStats c m k \<Rightarrow>
                    place (advance (k r) (plugin s)) (withoutTask i (suspended s))
                | _ \<Rightarrow> s)
          else s
      | UnitSettled i r \<Rightarrow>
          if i < length (suspended s)
          then (case suspended s ! i of
                  AwaitUnit c m k \<Rightarrow>
                    place (advance (k r) (plugin s)) (withoutTask i (suspended s))
                | _ \<Rightarrow> s)
          else s
      | SettingsChanged newSettings \<Rightarrow> s\<lparr>plugin := (plugin s)\<lparr>settings := newSettings\<rparr>\<rparr>)"

definition deliverAll :: "(string \<Rightarrow> 'k::linorder) \<Rightarrow> Event list \<Rightarrow> 'w EventLoop \<Rightarrow> 'w EventLoop" where
  "deliverAll ckey evs s = foldl (\<lambda>s' ev. deliver ckey ev s') s evs"

text \<open>Code that leaves the guard \<open>commitInProgress\<close> as it finds it.\<close>

primrec keepsGuard :: "('w, 'a) Async \<Rightarrow> bool" where
  "keepsGuard (Return r) = True"
| "keepsGuard (Update u a) = ((\<forall>p. commitInProgress (u p) = commitInProgress p) \<and> keepsGuard a)"
| "keepsGuard (Read k) = (\<forall>p. keepsGuard (k p))"
| "keepsGuard (AwaitStats c m k) = (\<forall>r. keepsGuard (k r))"
| "keepsGuard (AwaitUnit c m k) = (\<forall>r. keepsGuard (k r))"

text \<open>
  An invocation of \<open>performCommit\<close> suspended inside its \<open>try\<close> block, and an event loop
  whose guard tells whether such an invocation exists.
\<close>

definition inCriticalSection :: "('w, unit) Async \<Rightarrow> bool" where
  "inCriticalSection a =
     (\<not> isSettled a
      \<and> (\<exists>b::('w, unit) Async. keepsGuard b \<and> a = tryCatchFinally b catchCommit finallyCommit))"

definition consistent :: "'w EventLoop \<Rightarrow> bool" where
  "consistent s =
     (if commitInProgress (plugin s) then (\<exists>a. suspended s = [a] \<and> inCriticalSection a)
      else suspended s = [])"

section \<open>A repository behind simple-git\<close>

text \<open>
  What the git commands of the engine do to a repository, as far as the commit path
  observes it: \<open>status\<close> reports the upstream branch and the untracked paths,
  \<open>diff --numstat HEAD\<close> prints one line per changed tracked path (\<open>None\<close> for a binary
  file), \<open>add -A\<close> stages every pending change of the working tree, and \<open>commit\<close> records
  the staged paths under the message. A repository that cannot be used (\<open>failure\<close>) makes
  every command throw.
\<close>

record Repo =
  upstream :: "string option"
  untracked :: "string list"
  modified :: "(string \<times> (nat \<times> nat) option) list"
  staged :: "string list"
  history :: "(string \<times> string list) list"
  failure :: "error option"

definition pendingPaths :: "Repo \<Rightarrow> string list" where
  "pendingPaths r = map fst (modified r) @ untracked r"

definition numstatLine :: "string \<times> (nat \<times> nat) option \<Rightarrow> string" where
  "numstatLine m =
     (case m of
        (p, None) \<Rightarrow> ''-'' @ [CHR 0x09] @ ''-'' @ [CHR 0x09] @ p @ [CHR 0x0A]
      | (p, Some (a, d)) \<Rightarrow> digits a @ [CHR 0x09] @ digits d @ [CHR 0x09] @ p @ [CHR 0x0A])"

definition repoGit :: "Repo SimpleGit" where
  "repoGit =
     \<lparr>git_status = (\<lambda>r. case failure r of
          Some e \<Rightarrow> (Inl e, r)
        | None \<Rightarrow> (Inr \<lparr>tracking = upstream r, not_added = untracked r\<rparr>, r)),
      git_raw = (\<lambda>args r. case failure r of
          Some e \<Rightarrow> (Inl e, r)
        | None \<Rightarrow> (Inr (concat (map numstatLine (modified r))), r)),
      git_add = (\<lambda>arg r. case failure r of
          Some e \<Rightarrow> (Inl e, r)
        | None \<Rightarrow>
            if arg = ''-A''
            then (Inr (), r\<lparr>staged := staged r @ pendingPaths r, modified := [], untracked := []\<rparr>)
            else (Inl (''fatal: pathspec '' @ arg @ '' did not match any files''), r)),
      git_commit = (\<lambda>message r. case failure r of
          Some e \<Rightarrow> (Inl e, r)
        | None \<Rightarrow> (Inr (), r\<lparr>history := history r @ [(message, staged r)], staged := []\<rparr>))\<rparr>"

text \<open>
  The engine the plugin holds, built on a \<open>simple-git\<close> instance; the two methods that
  \<open>git-engine.ts\<close> does not define are parameters.
\<close>

definition gitEngineOn ::
  "'g SimpleGit
   \<Rightarrow> (FileDiffStat list \<Rightarrow> 'g EngineState \<Rightarrow> (error + FileDiffStat list) \<times> 'g EngineState)
   \<Rightarrow> (string list \<Rightarrow> string \<Rightarrow> 'g EngineState \<Rightarrow> (error + unit) \<times> 'g EngineState)
   \<Rightarrow> 'g EngineState GitEngine" where
  "gitEngineOn git filterIgnored commitFiles =
     \<lparr>getDiffStats = GitEngine_getDiffStats git,
      filterIgnoredFiles = filterIgnored,
      stageAndCommit = GitEngine_stageAndCommit git,
      stageAndCommitFiles = commitFiles\<rparr>"

section \<open>Example inputs\<close>

text \<open>
  Two engines over a trivial state for running the orchestrator on concrete inputs: both
  report one regular and one hidden change; \<open>exampleEngine True\<close> accepts every commit
  and \<open>exampleEngine False\<close> rejects every commit.
\<close>

definition exampleStats :: "FileDiffStat list" where
  "exampleStats =
     [\<lparr>path = ''note.md'', additions = Number 5, deletions = Number 2, netChange = Number 3\<rparr>,
      \<lparr>path = ''.env'', additions = Number 0, deletions = Number 0, netChange = Number 0\<rparr>]"

definition exampleEngine :: "bool \<Rightarrow> unit GitEngine" where
  "exampleEngine accepts =
     \<lparr>getDiffStats = (\<lambda>w. (Inr exampleStats, w)),
      filterIgnoredFiles = (\<lambda>stats w. (Inr stats, w)),
      stageAndCommit = (\<lambda>message w. (if accepts then Inr () else Inl ''permission denied'', w)),
      stageAndCommitFiles = (\<lambda>paths message w. (if accepts then Inr () else Inl ''permission denied'', w))\<rparr>"

definition examplePlugin :: "bool \<Rightarrow> HiddenFilesHandling \<Rightarrow> bool \<Rightarrow> unit LocalGitPlugin" where
  "examplePlugin accepts handling busy =
     \<lparr>settings = \<lparr>maxFilesInCommitMessage = 5, commitMode = Mode_batch,
                   hiddenFilesHandling = handling, debugLogging = False\<rparr>,
      gitEngine = Some (exampleEngine accepts),
      commitInProgress = busy,
      notices = [],
      console = [],
      calls = [],
      world = ()\<rparr>"

text \<open>
  An event loop on the plugin whose engine rejects commits, and events for it: a timer
  invokes \<open>performCommit\<close>, the user invokes it while the diff stats are awaited, the
  stats arrive, the idle timer invokes it while the commit is awaited, the commit throws.
\<close>

definition exampleLoop :: "unit EventLoop" where
  "exampleLoop = \<lparr>plugin = examplePlugin False Hidden_group False, suspended = []\<rparr>"

definition exampleEvents :: "Event list" where
  "exampleEvents =
     [Invoke ''interval'', Invoke ''manual'', StatsSettled 0 (Inr exampleStats), Invoke ''idle'',
      UnitSettled 0 (Inl ''permission denied'')]"

text \<open>
  A local repository without upstream holding an untracked note and an untracked hidden
  file, and the plugin in batch mode with hidden files set to \<open>never\<close> on top of it.
\<close>

definition exampleRepo :: Repo where
  "exampleRepo =
     \<lparr>upstream = None, untracked = [''note.md'', ''.obsidian/workspace.json''], modified = [],
      staged = [], history = [], failure = None\<rparr>"

definition exampleRepoPlugin :: "Repo EngineState LocalGitPlugin" where
  "exampleRepoPlugin =
     \<lparr>settings = \<lparr>maxFilesInCommitMessage = 5, commitMode = Mode_batch,
                   hiddenFilesHandling = Hidden_never, debugLogging = False\<rparr>,
      gitEngine = Some (gitEngineOn repoGit (\<lambda>stats s. (Inr stats, s)) (\<lambda>paths message s. (Inr (), s))),
      commitInProgress = False,
      notices = [],
      console = [],
      calls = [],
      world = \<lparr>repoState = exampleRepo, currentStatus = initialStatus, now = 0,
               statusChanges = [], reportedErrors = []\<rparr>\<rparr>"

text \<open>
  A repository that tracks an upstream branch, with a changed text file, a changed
  binary file and an untracked file.
\<close>

definition trackedRepo :: Repo where
  "trackedRepo =
     \<lparr>upstream = Some ''origin/main'', untracked = [''new.md''],
      modified = [(''a.md'', Some (5, 12)), (''img.png'', None)],
      staged = [], history = [], failure = None\<rparr>"

definition trackedEngineState :: "Repo EngineState" where
  "trackedEngineState =
     \<lparr>repoState = trackedRepo, currentStatus = initialStatus, now = 0,
      statusChanges = [], reportedErrors = []\<rparr>"

text \<open>
  A collation that is not the byte order: letters compare without regard to case, as
  they do first in the collations of the host's locales.
\<close>

definition lowerCase :: "char \<Rightarrow> char" where
  "lowerCase c =
     (case map_of (zip ''ABCDEFGHIJKLMNOPQRSTUVWXYZ'' ''abcdefghijklmnopqrstuvwxyz'') c of
        None \<Rightarrow> c
      | Some l \<Rightarrow> l)"

definition caseInsensitive :: "string \<Rightarrow> string" where
  "caseInsensitive s = map lowerCase s"

definition mixedCaseFiles :: "FileDiffStat list" where
  "mixedCaseFiles =
     [\<lparr>path = ''B.md'', additions = Number 1, deletions = Number 0, netChange = Number 1\<rparr>,
      \<lparr>path = ''a.md'', additions = Number 1, deletions = Number 0, netChange = Number 1\<rparr>]"

text \<open>Inputs of the builder's own tests: ten numbered files, three dot files.\<close>

definition tenFiles :: "FileDiffStat list" where
  "tenFiles =
     map (\<lambda>i. \<lparr>path = ''file'' @ digits i @ ''.md'', additions = Number 1, deletions = Number 0,
                 netChange = Number 1\<rparr>)
       [0, 1, 2, 3, 4, 5, 6, 7, 8, 9]"

definition dotFiles :: "FileDiffStat list" where
  "dotFiles = map zeroStat [''.zshrc'', ''.bashrc'', ''.env'']"

text \<open>Two hidden files, the first with net deletions.\<close>

definition oldDotFiles :: "FileDiffStat list" where
  "oldDotFiles =
     [\<lparr>path = ''.old'', additions = Number 0, deletions = Number 10, netChange = Number (- 10)\<rparr>,
      \<lparr>path = ''.env'', additions = Number 1, deletions = Number 0, netChange = Number 1\<rparr>]"

definition fruitFiles :: "FileDiffStat list" where
  "fruitFiles =
     [\<lparr>path = ''zebra.md'', additions = Number 1, deletions = Number 0, netChange = Number 1\<rparr>,
      \<lparr>path = ''apple.md'', additions = Number 1, deletions = Number 4, netChange = Number (- 3)\<rparr>,
      \<lparr>path = ''banana.md'', additions = Number 1, deletions = Number 0, netChange = Number 1\<rparr>]"

text \<open>Two regular files and a hidden one.\<close>

definition mixedStats :: "FileDiffStat list" where
  "mixedStats =
     [\<lparr>path = ''b.md'', additions = Number 1, deletions = Number 0, netChange = Number 1\<rparr>,
      \<lparr>path = ''.env'', additions = Number 0, deletions = Number 0, netChange = Number 0\<rparr>,
      \<lparr>path = ''a.md'', additions = Number 3, deletions = Number 1, netChange = Number 2\<rparr>]"

text \<open>Two entries for one path, the first with net deletions and the second without.\<close>

definition shrunk :: FileDiffStat where
  "shrunk = \<lparr>path = ''a.md'', additions = Number 0, deletions = Number 1, netChange = Number (- 1)\<rparr>"

definition grown :: FileDiffStat where
  "grown = \<lparr>path = ''a.md'', additions = Number 1, deletions = Number 0, netChange = Number 1\<rparr>"

text \<open>
  A third entry for that path, without net deletions like the second, and two files whose
  paths differ in case only.
\<close>

definition steady :: FileDiffStat where
  "steady = \<lparr>path = ''a.md'', additions = Number 2, deletions = Number 2, netChange = Number 0\<rparr>"

definition upperLower :: "FileDiffStat list" where
  "upperLower =
     [\<lparr>path = ''A.md'', additions = Number 1, deletions = Number 0, netChange = Number 1\<rparr>,
      \<lparr>path = ''a.md'', additions = Number 1, deletions = Number 0, netChange = Number 1\<rparr>]"

text \<open>A numstat count field as git prints it: a non-empty run of digits.\<close>

definition countField :: "string option \<Rightarrow> bool" where
  "countField v = (case v of None \<Rightarrow> False | Some ds \<Rightarrow> ds \<noteq> [] \<and> (\<forall>c\<in>set ds. isDigit c))"

section \<open>Facts about the built-ins\<close>

lemma digitValue_digit_char: "d < 10 \<Longrightarrow> digitValue (digit_char d) = d"
proof -
  assume "d < 10"
  then have "d \<in> {0, 1, 2, 3, 4, 5, 6, 7, 8, 9}" by auto
  then show ?thesis by (auto simp: digitValue_def digit_char_def)
qed

text \<open>\<open>digits\<close> writes the decimal numeral of its argument.\<close>

lemma decimalValue_digits: "decimalValue (digits n) = n"
proof (induction n rule: digits.induct)
  case (1 n)
  show ?case
  proof (cases "n < 10")
    case True
    then show ?thesis by (simp add: decimalValue_def digits.simps [of n] digitValue_digit_char)
  next
    case False
    with 1 show ?thesis
      by (simp add: decimalValue_def digits.simps [of n] digitValue_digit_char)
  qed
qed

text \<open>
  \<open>split\<close> cuts at every separator and nowhere else: joining the pieces with the
  separator gives the string back, and no piece holds the separator.
\<close>

lemma split_nonempty: "split sep s \<noteq> []"
  by (induction s) (auto split: list.splits)

lemma join_Cons: "ws \<noteq> [] \<Longrightarrow> join sep (w # ws) = w @ sep @ join sep ws"
  by (cases ws) auto

lemma join_split: "join [sep] (split sep s) = s"
proof (induction s)
  case Nil
  show ?case by simp
next
  case (Cons c cs)
  show ?case
  proof (cases "c = sep")
    case True
    with Cons show ?thesis by (simp add: join_Cons split_nonempty)
  next
    case False
    obtain w ws where sp: "split sep cs = w # ws"
      using split_nonempty [of sep cs] by (cases "split sep cs") auto
    from Cons sp False show ?thesis by (cases ws) auto
  qed
qed

lemma split_no_sep: "w \<in> set (split sep s) \<Longrightarrow> sep \<notin> set w"
  by (induction s arbitrary: w) (auto split: if_splits list.splits)

lemma some_iff: "some p xs = (\<exists>x\<in>set xs. p x)"
  by (induction xs) auto

lemma startsWith_dot: "startsWith part ''.'' = (\<exists>r. part = CHR ''.'' # r)"
  by (cases part) (auto simp: startsWith_def)

text \<open>
  Sorting with the comparator \<open>a.path.localeCompare(b.path)\<close> is the stable sort by the
  collation key of the path.
\<close>

lemma sort_insert_localeCompare:
  "sort_insert (\<lambda>a b. localeCompare ckey (path a) (path b)) x ys = insort_key (\<lambda>f. ckey (path f)) x ys"
  by (induction ys) (auto simp: localeCompare_def)

lemma sortByPath_sort_key: "sortByPath ckey fs = sort_key (\<lambda>f. ckey (path f)) fs"
  by (induction fs) (simp_all add: sortByPath_def array_sort_def sort_key_def sort_insert_localeCompare)


lemma map_key_sort_key: "map k (sort_key k xs) = sort (map k xs)"
  by (rule properties_for_sort [symmetric]) simp_all



section \<open>The commit message builder\<close>

text \<open>
  Claim C7. The formatted name of a file is its path followed by \<open>" [DELETES]"\<close> exactly
  when \<open>netChange\<close> is below zero, and the bare path otherwise; in particular a file
  with \<open>netChange = 0\<close> is formatted as its bare path. The single-file message shows the
  formatted name after \<open>"chore: update "\<close>.
\<close>

theorem formatFileName_DELETES_iff:
  "((formatFileName stat = path stat @ '' [DELETES]'') = (\<exists>i. netChange stat = Number i \<and> i < 0))
   \<and> ((formatFileName stat = path stat) = (\<not> (\<exists>i. netChange stat = Number i \<and> i < 0)))
   \<and> (netChange stat = Number 0 \<longrightarrow> formatFileName stat = path stat)
   \<and> buildSingleFileCommitMessage stat =
        ''chore: update '' @ path stat
          @ (if \<exists>i. netChange stat = Number i \<and> i < 0 then '' [DELETES]'' else [])"
  by (cases "netChange stat")
    (auto simp: formatFileName_def hasNetDeletions_def buildSingleFileCommitMessage_def)

theorem formatFileName_DELETES_iff_witness:
  "netChange \<lparr>path = ''unchanged.md'', additions = Number 10, deletions = Number 10, netChange = Number 0\<rparr>
     = Number 0
   \<and> formatFileName
        \<lparr>path = ''unchanged.md'', additions = Number 10, deletions = Number 10, netChange = Number 0\<rparr>
     = ''unchanged.md''
   \<and> formatFileName
        \<lparr>path = ''deleted.md'', additions = Number 2, deletions = Number 10, netChange = Number (- 8)\<rparr>
     = ''deleted.md [DELETES]''"
  using formatFileName_DELETES_iff
      [of "\<lparr>path = ''unchanged.md'', additions = Number 10, deletions = Number 10, netChange = Number 0\<rparr>"]
    formatFileName_DELETES_iff
      [of "\<lparr>path = ''deleted.md'', additions = Number 2, deletions = Number 10, netChange = Number (- 8)\<rparr>"]
  by simp

text \<open>
  Claim C3. For an empty list the message is exactly \<open>"chore: update files"\<close>. For \<open>n\<close>
  files and \<open>maxFiles = k\<close>: if \<open>n \<le> k\<close> the message is \<open>"chore: update "\<close> followed by
  the formatted names of all files, sorted by path, joined by \<open>", "\<close>; if \<open>n > k\<close> it is
  \<open>"chore: update "\<close> followed by the first \<open>k\<close> of them joined by \<open>", "\<close> and then
  \<open>" and {n - k} more"\<close>, the count written in decimal.
\<close>

theorem buildCommitMessage_shape:
  "(files options = [] \<longrightarrow> buildCommitMessage ckey options = ''chore: update files'')
   \<and> (files options \<noteq> [] \<and> maxFiles options = Some (int k) \<and> length (files options) \<le> k \<longrightarrow>
        buildCommitMessage ckey options =
          ''chore: update ''
            @ join '', '' (map formatFileName (sort_key (\<lambda>f. ckey (path f)) (files options))))
   \<and> (files options \<noteq> [] \<and> maxFiles options = Some (int k) \<and> k < length (files options) \<longrightarrow>
        buildCommitMessage ckey options =
          ''chore: update ''
            @ join '', '' (take k (map formatFileName (sort_key (\<lambda>f. ckey (path f)) (files options))))
            @ '' and '' @ digits (length (files options) - k) @ '' more'')"
  by (auto simp: buildCommitMessage_def Let_def sortByPath_sort_key slice0_def toString_def
      nat_diff_distrib')

theorem buildCommitMessage_shape_witness:
  "files \<lparr>files = tenFiles, maxFiles = Some 3\<rparr> \<noteq> []
   \<and> maxFiles \<lparr>files = tenFiles, maxFiles = Some 3\<rparr> = Some (int 3)
   \<and> 3 < length (files \<lparr>files = tenFiles, maxFiles = Some 3\<rparr>)
   \<and> buildCommitMessage byteOrder \<lparr>files = tenFiles, maxFiles = Some 3\<rparr>
       = ''chore: update file0.md, file1.md, file2.md and 7 more''
   \<and> length (files \<lparr>files = fruitFiles, maxFiles = Some 3\<rparr>) \<le> 3
   \<and> buildCommitMessage byteOrder \<lparr>files = fruitFiles, maxFiles = Some 3\<rparr>
       = ''chore: update apple.md [DELETES], banana.md, zebra.md''
   \<and> buildCommitMessage byteOrder \<lparr>files = [], maxFiles = Some 3\<rparr> = ''chore: update files''"
  using buildCommitMessage_shape [of "\<lparr>files = tenFiles, maxFiles = Some 3\<rparr>" byteOrder 3]
    buildCommitMessage_shape [of "\<lparr>files = fruitFiles, maxFiles = Some 3\<rparr>" byteOrder 3]
    buildCommitMessage_shape [of "\<lparr>files = [], maxFiles = Some 3\<rparr>" byteOrder 3]
  by (simp add: tenFiles_def fruitFiles_def byteOrder_def digits.simps digit_char_def
      formatFileName_def hasNetDeletions_def)

lemma formatFileName_suffix:
  "formatFileName f =
     path f @ (if \<exists>i. netChange f = Number i \<and> i < 0 then '' [DELETES]'' else [])"
  by (cases "netChange f") (auto simp: formatFileName_def hasNetDeletions_def)

text \<open>
  Claim C8. For an empty list the hidden-files message is exactly
  \<open>"chore: update hidden files"\<close>; for a non-empty list it is
  \<open>"chore: update hidden files ("\<close>, the formatted names of all files sorted by path and
  joined by \<open>", "\<close>, whatever their number, and \<open>")"\<close>. The formatted name of a file is
  its path, followed by \<open>" [DELETES]"\<close> exactly when its \<open>netChange\<close> is below zero.
\<close>

theorem buildHiddenFilesCommitMessage_shape:
  "buildHiddenFilesCommitMessage ckey [] = ''chore: update hidden files''
   \<and> (fs \<noteq> [] \<longrightarrow>
        buildHiddenFilesCommitMessage ckey fs =
          ''chore: update hidden files (''
            @ join '', ''
                (map (\<lambda>f. path f
                            @ (if \<exists>i. netChange f = Number i \<and> i < 0 then '' [DELETES]'' else []))
                   (sort_key (\<lambda>f. ckey (path f)) fs))
            @ '')'')"
proof -
  have names: "formatFileName =
      (\<lambda>f. path f @ (if \<exists>i. netChange f = Number i \<and> i < 0 then '' [DELETES]'' else []))"
    by (rule ext) (rule formatFileName_suffix)
  show ?thesis
    unfolding names [symmetric]
    by (auto simp: buildHiddenFilesCommitMessage_def Let_def sortByPath_sort_key)
qed

theorem buildHiddenFilesCommitMessage_shape_witness:
  "oldDotFiles \<noteq> []
   \<and> buildHiddenFilesCommitMessage byteOrder oldDotFiles
       = ''chore: update hidden files (.env, .old [DELETES])''
   \<and> dotFiles \<noteq> []
   \<and> buildHiddenFilesCommitMessage byteOrder dotFiles
       = ''chore: update hidden files (.bashrc, .env, .zshrc)''
   \<and> buildHiddenFilesCommitMessage byteOrder [] = ''chore: update hidden files''"
  using buildHiddenFilesCommitMessage_shape [of byteOrder oldDotFiles]
    buildHiddenFilesCommitMessage_shape [of byteOrder dotFiles]
  by (simp add: oldDotFiles_def dotFiles_def zeroStat_def byteOrder_def)

subsection \<open>Order of the listed paths\<close>







text \<open>
  The order of the listed paths is the order of the collation, not the byte order: a
  collation that ignores case lists \<open>a.md\<close> before \<open>B.md\<close>, the byte order the other way
  round.
\<close>

lemma listed_paths_follow_collation:
  "buildCommitMessage caseInsensitive \<lparr>files = mixedCaseFiles, maxFiles = None\<rparr>
     = ''chore: update a.md, B.md''
   \<and> buildCommitMessage byteOrder \<lparr>files = rev mixedCaseFiles, maxFiles = None\<rparr>
     = ''chore: update B.md, a.md''"
  by (simp add: buildCommitMessage_def sortByPath_def array_sort_def localeCompare_def byteOrder_def
      caseInsensitive_def lowerCase_def mixedCaseFiles_def formatFileName_def hasNetDeletions_def)



subsection \<open>Permutations of the input\<close>

lemma map_sort_key_perm:
  assumes perm: "mset xs = mset ys"
    and agree: "\<forall>a\<in>set xs. \<forall>b\<in>set xs. k a = k b \<longrightarrow> g a = g b"
  shows "map g (sort_key k xs) = map g (sort_key k ys)"
proof -
  define h where "h = (\<lambda>c. g (SOME a. a \<in> set xs \<and> k a = c))"
  have set_eq: "set ys = set xs" using perm by (metis set_mset_mset)
  have gh: "g a = h (k a)" if "a \<in> set xs" for a
  proof -
    have "(SOME b. b \<in> set xs \<and> k b = k a) \<in> set xs \<and> k (SOME b. b \<in> set xs \<and> k b = k a) = k a"
      by (rule someI [of "\<lambda>b. b \<in> set xs \<and> k b = k a" a]) (simp add: that)
    with agree that show ?thesis unfolding h_def by metis
  qed
  have "map g (sort_key k zs) = map h (sort (map k zs))" if "set zs = set xs" for zs
  proof -
    have "map g (sort_key k zs) = map (\<lambda>a. h (k a)) (sort_key k zs)"
      using that gh by (intro map_cong) auto
    also have "\<dots> = map h (map k (sort_key k zs))" by simp
    finally show ?thesis by (simp only: map_key_sort_key)
  qed
  from this [of xs] this [of ys] set_eq
  have "map g (sort_key k xs) = map h (sort (map k xs))"
    "map g (sort_key k ys) = map h (sort (map k ys))"
    by simp_all
  moreover have "sort (map k xs) = sort (map k ys)"
    using perm by (metis properties_for_sort sorted_sort mset_sort mset_map)
  ultimately show ?thesis by simp
qed

text \<open>
  Claim C4, as the specification states it, covers lists with duplicate paths. The sort
  is stable and compares paths only, so two entries for one path keep their input order
  and the message changes with it when their formatted names differ.
\<close>

theorem builders_permutation_counterexample:
  "mset [shrunk, grown] = mset [grown, shrunk]
   \<and> buildCommitMessage byteOrder \<lparr>files = [shrunk, grown], maxFiles = None\<rparr>
       = ''chore: update a.md [DELETES], a.md''
   \<and> buildCommitMessage byteOrder \<lparr>files = [grown, shrunk], maxFiles = None\<rparr>
       = ''chore: update a.md, a.md [DELETES]''
   \<and> buildHiddenFilesCommitMessage byteOrder [shrunk, grown]
       \<noteq> buildHiddenFilesCommitMessage byteOrder [grown, shrunk]"
  by (simp add: buildCommitMessage_def buildHiddenFilesCommitMessage_def sortByPath_def
      array_sort_def localeCompare_def byteOrder_def formatFileName_def hasNetDeletions_def
      grown_def shrunk_def)

lemma localeCompare_zero: "(localeCompare ckey a b = 0) = (ckey a = ckey b)"
  unfolding localeCompare_def by (cases "ckey a < ckey b"; cases "ckey b < ckey a") auto

text \<open>
  Distinct paths are not enough: a collation can find two different paths equal, and then
  the two keep their input order like entries for one path.
\<close>

lemma distinct_paths_compare_equal:
  "distinct (map path upperLower)
   \<and> localeCompare caseInsensitive ''A.md'' ''a.md'' = 0
   \<and> buildCommitMessage caseInsensitive \<lparr>files = upperLower, maxFiles = None\<rparr>
       = ''chore: update A.md, a.md''
   \<and> buildCommitMessage caseInsensitive \<lparr>files = rev upperLower, maxFiles = None\<rparr>
       = ''chore: update a.md, A.md''"
  by (simp add: buildCommitMessage_def sortByPath_def array_sort_def localeCompare_def
      caseInsensitive_def lowerCase_def upperLower_def formatFileName_def hasNetDeletions_def)

text \<open>
  Claim C4, amended. For every list in which any two entries whose paths compare equal
  under \<open>localeCompare\<close> (the result of \<open>a.path.localeCompare(b.path)\<close> is zero) have the
  same formatted name, \<open>buildCommitMessage\<close> and \<open>buildHiddenFilesCommitMessage\<close> give the
  same message on the list and on each of its permutations.
\<close>

theorem builders_permutation_invariant:
  assumes "mset xs = mset ys"
    and "\<forall>a\<in>set xs. \<forall>b\<in>set xs.
           localeCompare ckey (path a) (path b) = 0 \<longrightarrow> formatFileName a = formatFileName b"
  shows "buildCommitMessage ckey \<lparr>files = xs, maxFiles = m\<rparr>
           = buildCommitMessage ckey \<lparr>files = ys, maxFiles = m\<rparr>
         \<and> buildHiddenFilesCommitMessage ckey xs = buildHiddenFilesCommitMessage ckey ys"
proof -
  have len: "length xs = length ys" using assms(1) by (metis size_mset)
  have agree: "\<forall>a\<in>set xs. \<forall>b\<in>set xs.
                 ckey (path a) = ckey (path b) \<longrightarrow> formatFileName a = formatFileName b"
    using assms(2) unfolding localeCompare_zero .
  have m: "map formatFileName (sortByPath ckey xs) = map formatFileName (sortByPath ckey ys)"
    unfolding sortByPath_sort_key using assms(1) agree by (rule map_sort_key_perm)
  have emp: "(xs = []) = (ys = [])" using len by auto
  have lens: "length (sortByPath ckey xs) = length ys" "length (sortByPath ckey ys) = length ys"
    by (simp_all add: sortByPath_sort_key len)
  show ?thesis
    by (simp add: buildCommitMessage_def buildHiddenFilesCommitMessage_def Let_def m len emp lens)
qed

theorem builders_permutation_invariant_witness:
  "mset [grown, steady] = mset [steady, grown]
   \<and> localeCompare byteOrder (path grown) (path steady) = 0
   \<and> formatFileName grown = formatFileName steady
   \<and> grown \<noteq> steady
   \<and> buildCommitMessage byteOrder \<lparr>files = [grown, steady], maxFiles = None\<rparr>
       = buildCommitMessage byteOrder \<lparr>files = [steady, grown], maxFiles = None\<rparr>
   \<and> buildHiddenFilesCommitMessage byteOrder [grown, steady]
       = buildHiddenFilesCommitMessage byteOrder [steady, grown]
   \<and> mset fruitFiles = mset (rev fruitFiles)
   \<and> buildCommitMessage byteOrder \<lparr>files = fruitFiles, maxFiles = None\<rparr>
       = buildCommitMessage byteOrder \<lparr>files = rev fruitFiles, maxFiles = None\<rparr>
   \<and> buildHiddenFilesCommitMessage byteOrder fruitFiles
       = buildHiddenFilesCommitMessage byteOrder (rev fruitFiles)"
proof -
  have p2: "mset [grown, steady] = mset [steady, grown]" by simp
  have same: "formatFileName grown = formatFileName steady"
    by (simp add: formatFileName_def hasNetDeletions_def grown_def steady_def)
  have a2: "\<forall>a\<in>set [grown, steady]. \<forall>b\<in>set [grown, steady].
              localeCompare byteOrder (path a) (path b) = 0 \<longrightarrow> formatFileName a = formatFileName b"
    using same by (simp add: localeCompare_zero)
  have eq: "localeCompare byteOrder (path grown) (path steady) = 0"
    by (simp add: localeCompare_zero grown_def steady_def)
  have ne: "grown \<noteq> steady" by (simp add: grown_def steady_def)
  have p: "mset fruitFiles = mset (rev fruitFiles)" by simp
  have a: "\<forall>a\<in>set fruitFiles. \<forall>b\<in>set fruitFiles.
             localeCompare byteOrder (path a) (path b) = 0 \<longrightarrow> formatFileName a = formatFileName b"
    by (simp add: fruitFiles_def byteOrder_def localeCompare_zero)
  note two = builders_permutation_invariant [OF p2 a2, of None]
  note fruit = builders_permutation_invariant [OF p a, of None]
  show ?thesis
    apply (rule conjI [OF p2])
    apply (rule conjI [OF eq])
    apply (rule conjI [OF same])
    apply (rule conjI [OF ne])
    apply (rule conjI [OF two [THEN conjunct1]])
    apply (rule conjI [OF two [THEN conjunct2]])
    apply (rule conjI [OF p])
    apply (rule conjI [OF fruit [THEN conjunct1]])
    apply (rule fruit [THEN conjunct2])
    done
qed

section \<open>The file categorizer\<close>

lemma categorizeLoop_filter:
  "categorizeLoop fs g =
     \<lparr>hidden = hidden g @ filter (\<lambda>f. isHiddenPath (path f)) fs,
      regular = regular g @ filter (\<lambda>f. \<not> isHiddenPath (path f)) fs\<rparr>"
  by (induction fs arbitrary: g) auto

lemma categorizeFiles_filter:
  "categorizeFiles fs =
     \<lparr>hidden = filter (\<lambda>f. isHiddenPath (path f)) fs,
      regular = filter (\<lambda>f. \<not> isHiddenPath (path f)) fs\<rparr>"
  by (simp add: categorizeFiles_def categorizeLoop_filter)

text \<open>
  Claim C6. \<open>categorizeFiles\<close> partitions its input: \<open>hidden\<close> holds, in input order, the
  files of which some \<open>/\<close>-delimited path segment starts with \<open>"."\<close>, \<open>regular\<close> holds the
  other files in input order, the two together are a permutation of the input, and every
  input file is in exactly one of them.
\<close>

theorem categorizeFiles_partition:
  "hidden (categorizeFiles fs) =
     filter (\<lambda>f. \<exists>seg\<in>set (split CHR ''/'' (path f)). \<exists>r. seg = CHR ''.'' # r) fs
   \<and> regular (categorizeFiles fs) =
       filter (\<lambda>f. \<not> (\<exists>seg\<in>set (split CHR ''/'' (path f)). \<exists>r. seg = CHR ''.'' # r)) fs
   \<and> mset (hidden (categorizeFiles fs) @ regular (categorizeFiles fs)) = mset fs
   \<and> set (hidden (categorizeFiles fs)) \<inter> set (regular (categorizeFiles fs)) = {}
   \<and> (\<forall>f\<in>set fs. (f \<in> set (hidden (categorizeFiles fs))) \<noteq> (f \<in> set (regular (categorizeFiles fs))))"
  by (auto simp: categorizeFiles_filter isHiddenPath_def some_iff startsWith_dot)

theorem categorizeFiles_partition_witness:
  "hidden (categorizeFiles (map zeroStat [''note.md'', ''.obsidian/app.json'', ''a.b/c.md'', ''docs/.git/x'']))
     = map zeroStat [''.obsidian/app.json'', ''docs/.git/x'']
   \<and> regular (categorizeFiles (map zeroStat [''note.md'', ''.obsidian/app.json'', ''a.b/c.md'', ''docs/.git/x'']))
     = map zeroStat [''note.md'', ''a.b/c.md'']"
  using categorizeFiles_partition
      [of "map zeroStat [''note.md'', ''.obsidian/app.json'', ''a.b/c.md'', ''docs/.git/x'']"]
  by (simp add: zeroStat_def)

section \<open>The diff-stats query\<close>

lemma numstatLoop_map: "numstatLoop ls stats = stats @ map numstatEntry ls"
  by (induction ls arbitrary: stats) auto

lemma untrackedLoop_map: "untrackedLoop fs stats = stats @ map zeroStat fs"
  by (induction fs arbitrary: stats) (auto simp: zeroStat_def)

lemma numstatEntry_netChange:
  "netChange (numstatEntry line) =
     number_minus (additions (numstatEntry line)) (deletions (numstatEntry line))"
  by (simp add: numstatEntry_def Let_def)

lemma numstatEntry_binary:
  "isBinaryLine line \<Longrightarrow>
   numstatEntry line = zeroStat (case field (split CHR 0x09 line) 2 of None \<Rightarrow> [] | Some q \<Rightarrow> q)"
  by (auto simp: numstatEntry_def isBinaryLine_def zeroStat_def Let_def)

lemma isDigit_not_space: "isDigit c \<Longrightarrow> \<not> isWhiteSpace c"
  by (auto simp: isDigit_def isWhiteSpace_def)

lemma isDigit_not_sign: "isDigit c \<Longrightarrow> c \<noteq> CHR ''-'' \<and> c \<noteq> CHR ''+''"
  by (auto simp: isDigit_def)

text \<open>\<open>parseInt\<close> reads a run of digits as the number it denotes.\<close>

lemma parseInt_digits:
  assumes "ds \<noteq> []" and "\<forall>c\<in>set ds. isDigit c"
  shows "parseInt (Some ds) = Number (int (decimalValue ds))"
proof -
  obtain c r where ds: "ds = c # r" using assms(1) by (cases ds) auto
  have c: "isDigit c" using assms(2) ds by simp
  have tw: "takeWhile isDigit r = r"
    using assms(2) ds by (simp add: takeWhile_eq_all_conv)
  show ?thesis
    using isDigit_not_space [OF c] isDigit_not_sign [OF c] c
    by (simp add: parseInt_def ds Let_def tw)
qed

lemma numstatEntry_counts:
  assumes "countField (field (split CHR 0x09 line) 0)"
    and "countField (field (split CHR 0x09 line) 1)"
  shows "\<exists>a d. additions (numstatEntry line) = Number (int a)
           \<and> deletions (numstatEntry line) = Number (int d)
           \<and> netChange (numstatEntry line) = Number (int a - int d)"
proof -
  obtain as where a: "field (split CHR 0x09 line) 0 = Some as" "as \<noteq> []" "\<forall>c\<in>set as. isDigit c"
    using assms(1) by (auto simp: countField_def split: option.splits)
  obtain ds where d: "field (split CHR 0x09 line) 1 = Some ds" "ds \<noteq> []" "\<forall>c\<in>set ds. isDigit c"
    using assms(2) by (auto simp: countField_def split: option.splits)
  have nodash: "\<not> isDigit CHR ''-''" by (simp add: isDigit_def)
  have na: "as \<noteq> ''-''" using a(3) nodash by auto
  have nd: "ds \<noteq> ''-''" using d(3) nodash by auto
  have pa: "parseInt (Some as) = Number (int (decimalValue as))"
    by (rule parseInt_digits [OF a(2,3)])
  have pd: "parseInt (Some ds) = Number (int (decimalValue ds))"
    by (rule parseInt_digits [OF d(2,3)])
  have "additions (numstatEntry line) = Number (int (decimalValue as))"
    "deletions (numstatEntry line) = Number (int (decimalValue ds))"
    "netChange (numstatEntry line) = Number (int (decimalValue as) - int (decimalValue ds))"
    using a(1) d(1) by (simp_all add: numstatEntry_def Let_def pa pd na nd)
  then show ?thesis by blast
qed

lemma getDiffStats_result:
  assumes "GitEngine_getDiffStats git s = (Inr stats, s')"
  shows "\<exists>status g1. git_status git (repoState s) = (Inr status, g1)
           \<and> (if falsy (tracking status) then stats = map zeroStat (not_added status)
               else \<exists>diffOutput g2.
                      git_raw git [''diff'', ''--numstat'', ''HEAD''] g1 = (Inr diffOutput, g2)
                      \<and> stats = map numstatEntry (numstatLines diffOutput)
                                  @ map zeroStat (not_added status))"
  using assms
  by (auto simp: GitEngine_getDiffStats_def Let_def numstatLoop_map untrackedLoop_map
      split: prod.splits sum.splits if_splits)

text \<open>
  Claim C9. Every entry that \<open>getDiffStats\<close> returns has
  \<open>netChange = additions - deletions\<close>. The result is the entries of the numstat lines
  (none when the status reports no upstream branch) followed by one entry per untracked
  path, each with \<open>additions = 0\<close> and \<open>deletions = 0\<close>; the entry of a binary line
  (\<open>-\<close> in a count field) has \<open>additions = 0\<close> and \<open>deletions = 0\<close> as well. On a line
  whose count fields are digits, as git prints them, the three numbers are integers and
  the equation is the one between integers.
\<close>

theorem getDiffStats_invariant:
  assumes "GitEngine_getDiffStats git s = (Inr stats, s')"
  shows "(\<forall>st\<in>set stats. netChange st = number_minus (additions st) (deletions st))
         \<and> (\<exists>status g1 tracked.
               git_status git (repoState s) = (Inr status, g1)
               \<and> stats = tracked @ map zeroStat (not_added status)
               \<and> (falsy (tracking status) \<longrightarrow> tracked = [])
               \<and> (\<not> falsy (tracking status) \<longrightarrow>
                    (\<exists>diffOutput g2.
                       git_raw git [''diff'', ''--numstat'', ''HEAD''] g1 = (Inr diffOutput, g2)
                       \<and> tracked = map numstatEntry (numstatLines diffOutput))))
         \<and> (\<forall>line. isBinaryLine line \<longrightarrow>
               additions (numstatEntry line) = Number 0 \<and> deletions (numstatEntry line) = Number 0
               \<and> netChange (numstatEntry line) = Number 0)
         \<and> (\<forall>line. countField (field (split CHR 0x09 line) 0)
                    \<and> countField (field (split CHR 0x09 line) 1) \<longrightarrow>
               (\<exists>a d. additions (numstatEntry line) = Number (int a)
                      \<and> deletions (numstatEntry line) = Number (int d)
                      \<and> netChange (numstatEntry line) = Number (int a - int d)))"
proof -
  from getDiffStats_result [OF assms] obtain status g1 where
    st: "git_status git (repoState s) = (Inr status, g1)" and
    r: "if falsy (tracking status) then stats = map zeroStat (not_added status)
        else \<exists>diffOutput g2.
               git_raw git [''diff'', ''--numstat'', ''HEAD''] g1 = (Inr diffOutput, g2)
               \<and> stats = map numstatEntry (numstatLines diffOutput) @ map zeroStat (not_added status)"
    by blast
  have inv: "\<forall>st\<in>set stats. netChange st = number_minus (additions st) (deletions st)"
    using r by (auto simp: zeroStat_def numstatEntry_netChange split: if_splits)
  have shape: "\<exists>status g1 tracked.
               git_status git (repoState s) = (Inr status, g1)
               \<and> stats = tracked @ map zeroStat (not_added status)
               \<and> (falsy (tracking status) \<longrightarrow> tracked = [])
               \<and> (\<not> falsy (tracking status) \<longrightarrow>
                    (\<exists>diffOutput g2.
                       git_raw git [''diff'', ''--numstat'', ''HEAD''] g1 = (Inr diffOutput, g2)
                       \<and> tracked = map numstatEntry (numstatLines diffOutput)))"
  proof (cases "falsy (tracking status)")
    case True
    with st r show ?thesis
      by (intro exI [of _ status] exI [of _ g1] exI [of _ "[]"]) simp
  next
    case False
    with r obtain diffOutput g2 where
      "git_raw git [''diff'', ''--numstat'', ''HEAD''] g1 = (Inr diffOutput, g2)"
      "stats = map numstatEntry (numstatLines diffOutput) @ map zeroStat (not_added status)"
      by auto
    with st False show ?thesis
      by (intro exI [of _ status] exI [of _ g1]
          exI [of _ "map numstatEntry (numstatLines diffOutput)"]) auto
  qed
  have bin: "\<forall>line. isBinaryLine line \<longrightarrow>
               additions (numstatEntry line) = Number 0 \<and> deletions (numstatEntry line) = Number 0
               \<and> netChange (numstatEntry line) = Number 0"
    by (auto simp: numstatEntry_binary zeroStat_def)
  have cnt: "\<forall>line. countField (field (split CHR 0x09 line) 0)
                    \<and> countField (field (split CHR 0x09 line) 1) \<longrightarrow>
               (\<exists>a d. additions (numstatEntry line) = Number (int a)
                      \<and> deletions (numstatEntry line) = Number (int d)
                      \<and> netChange (numstatEntry line) = Number (int a - int d))"
    using numstatEntry_counts by blast
  show ?thesis
    apply (rule conjI [OF inv])
    apply (rule conjI [OF shape])
    apply (rule conjI [OF bin])
    apply (rule cnt)
    done
qed

lemma getDiffStats_trackedRepo:
  "GitEngine_getDiffStats repoGit trackedEngineState =
     (Inr [\<lparr>path = ''a.md'', additions = Number 5, deletions = Number 12, netChange = Number (- 7)\<rparr>,
           \<lparr>path = ''img.png'', additions = Number 0, deletions = Number 0, netChange = Number 0\<rparr>,
           \<lparr>path = ''new.md'', additions = Number 0, deletions = Number 0, netChange = Number 0\<rparr>],
      trackedEngineState)"
  by (simp add: GitEngine_getDiffStats_def repoGit_def trackedEngineState_def trackedRepo_def falsy_def
      numstatLine_def digits.simps digit_char_def numstatLines_def trim_def isWhiteSpace_def
      numstatEntry_def field_def parseInt_def isDigit_def decimalValue_def digitValue_def Let_def)

theorem getDiffStats_invariant_witness:
  "GitEngine_getDiffStats repoGit trackedEngineState =
     (Inr [\<lparr>path = ''a.md'', additions = Number 5, deletions = Number 12, netChange = Number (- 7)\<rparr>,
           \<lparr>path = ''img.png'', additions = Number 0, deletions = Number 0, netChange = Number 0\<rparr>,
           \<lparr>path = ''new.md'', additions = Number 0, deletions = Number 0, netChange = Number 0\<rparr>],
      trackedEngineState)
   \<and> list_all (\<lambda>st. netChange st = number_minus (additions st) (deletions st))
        [\<lparr>path = ''a.md'', additions = Number 5, deletions = Number 12, netChange = Number (- 7)\<rparr>,
         \<lparr>path = ''img.png'', additions = Number 0, deletions = Number 0, netChange = Number 0\<rparr>,
         \<lparr>path = ''new.md'', additions = Number 0, deletions = Number 0, netChange = Number 0\<rparr>]
   \<and> isBinaryLine (numstatLine (''img.png'', None))
   \<and> additions (numstatEntry (numstatLine (''img.png'', None))) = Number 0
   \<and> deletions (numstatEntry (numstatLine (''img.png'', None))) = Number 0"
proof -
  note invariant = getDiffStats_invariant [OF getDiffStats_trackedRepo]
  have all: "list_all (\<lambda>st. netChange st = number_minus (additions st) (deletions st))
        [\<lparr>path = ''a.md'', additions = Number 5, deletions = Number 12, netChange = Number (- 7)\<rparr>,
         \<lparr>path = ''img.png'', additions = Number 0, deletions = Number 0, netChange = Number 0\<rparr>,
         \<lparr>path = ''new.md'', additions = Number 0, deletions = Number 0, netChange = Number 0\<rparr>]"
    using invariant [THEN conjunct1] by (simp add: list_all_iff)
  have binary: "isBinaryLine (numstatLine (''img.png'', None))"
    by (simp add: isBinaryLine_def numstatLine_def field_def)
  from invariant [THEN conjunct2, THEN conjunct2, THEN conjunct1, rule_format, OF binary]
  have zero: "additions (numstatEntry (numstatLine (''img.png'', None))) = Number 0"
    "deletions (numstatEntry (numstatLine (''img.png'', None))) = Number 0"
    by blast+
  show ?thesis
    apply (rule conjI [OF getDiffStats_trackedRepo])
    apply (rule conjI [OF all])
    apply (rule conjI [OF binary])
    apply (rule conjI [OF zero(1)])
    apply (rule zero(2))
    done
qed

section \<open>The commit orchestrator\<close>

subsection \<open>Running and suspending\<close>

lemma callEngine_simp:
  "callEngine c m p = (fst (m (world p)), p\<lparr>calls := calls p @ [c], world := snd (m (world p))\<rparr>)"
  by (simp add: callEngine_def split: prod.splits)

lemma run_andThen:
  "run (andThen a rest) p =
     (case run a p of (Inl e, p') \<Rightarrow> (Inl e, p') | (Inr x, p') \<Rightarrow> run (rest x) p')"
  by (induction a arbitrary: p) (auto split: sum.splits prod.splits)

lemma run_tryCatchFinally:
  "run (tryCatchFinally body handler finalizer) p =
     (case run body p of
        (r, p') \<Rightarrow> (Inr (), finalizer (case r of Inl e \<Rightarrow> handler e p' | Inr _ \<Rightarrow> p')))"
  by (induction body arbitrary: p) (auto split: sum.splits prod.splits)

text \<open>\<open>run\<close> is \<open>advance\<close> with the engine answering each call at once.\<close>

lemma run_advance:
  "run a p =
     (case advance a p of
        (p', Return r) \<Rightarrow> (r, p')
      | (p', AwaitStats c m k) \<Rightarrow> (case m (world p') of (r, w') \<Rightarrow> run (k r) (p'\<lparr>world := w'\<rparr>))
      | (p', AwaitUnit c m k) \<Rightarrow> (case m (world p') of (r, w') \<Rightarrow> run (k r) (p'\<lparr>world := w'\<rparr>))
      | (p', _) \<Rightarrow> run a p)"
  by (induction a arbitrary: p) (auto simp: callEngine_def split: prod.splits)

lemma newNotice_guard [simp]: "commitInProgress (newNotice text p) = commitInProgress p"
  by (simp add: newNotice_def)

lemma consoleLog_guard [simp]: "commitInProgress (consoleLog text p) = commitInProgress p"
  by (simp add: consoleLog_def)

lemma catchCommit_guard [simp]: "commitInProgress (catchCommit e p) = commitInProgress p"
  by (simp add: catchCommit_def Let_def)

text \<open>Inside its \<open>try\<close> block \<open>performCommit\<close> does not touch the guard.\<close>

lemma keepsGuard_andThen:
  "keepsGuard a \<Longrightarrow> (\<And>x. keepsGuard (rest x)) \<Longrightarrow> keepsGuard (andThen a rest)"
  by (induction a) (auto split: sum.splits)

lemma keepsGuard_awaitUnit [simp]: "keepsGuard (awaitUnit c m)"
  by (simp add: awaitUnit_def)

lemma keepsGuard_awaitStats [simp]: "keepsGuard (awaitStats c m)"
  by (simp add: awaitStats_def)

lemma keepsGuard_commitEach: "keepsGuard (commitEach engine fs n)"
  by (induction fs arbitrary: n) (auto simp: Let_def intro!: keepsGuard_andThen)

lemma keepsGuard_filterFilesBySettings: "keepsGuard (filterFilesBySettings stats)"
  by (auto simp: filterFilesBySettings_def split: option.splits)

lemma keepsGuard_performBatchCommit: "keepsGuard (performBatchCommit ckey stats triggeredBy)"
  by (auto simp: performBatchCommit_def Let_def split: option.splits intro!: keepsGuard_andThen)

lemma keepsGuard_performIndividualCommits:
  "keepsGuard (performIndividualCommits ckey stats triggeredBy)"
  by (auto simp: performIndividualCommits_def Let_def keepsGuard_commitEach split: option.splits
      intro!: keepsGuard_andThen)

lemma keepsGuard_tryCommit: "keepsGuard (tryCommit ckey engine triggeredBy)"
  by (auto simp: tryCommit_def keepsGuard_filterFilesBySettings keepsGuard_performBatchCommit
      keepsGuard_performIndividualCommits intro!: keepsGuard_andThen)

text \<open>
  Resumed under the guard, an invocation in its \<open>try\<close> block either settles, and the
  \<open>finally\<close> block has cleared the guard, or is suspended again under the guard.
\<close>

lemma advance_critical:
  fixes b :: "('w, unit) Async"
  assumes "keepsGuard b" and "commitInProgress p"
  shows "case advance (tryCatchFinally b catchCommit finallyCommit) p of
           (p', a') \<Rightarrow>
             if isSettled a' then \<not> commitInProgress p'
             else commitInProgress p' \<and> inCriticalSection a'"
  using assms
proof (induction b arbitrary: p)
  case (Return r)
  then show ?case by (simp add: isSettled_def finallyCommit_def)
next
  case (Update u a)
  then show ?case by simp
next
  case (Read k)
  then show ?case by simp
next
  case (AwaitStats c m k)
  have "inCriticalSection (tryCatchFinally (AwaitStats c m k) catchCommit finallyCommit)"
    unfolding inCriticalSection_def using AwaitStats.prems(1)
    by (intro conjI exI [of _ "AwaitStats c m k"]) (simp_all add: isSettled_def)
  with AwaitStats.prems show ?case by (simp add: isSettled_def)
next
  case (AwaitUnit c m k)
  have "inCriticalSection (tryCatchFinally (AwaitUnit c m k) catchCommit finallyCommit)"
    unfolding inCriticalSection_def using AwaitUnit.prems(1)
    by (intro conjI exI [of _ "AwaitUnit c m k"]) (simp_all add: isSettled_def)
  with AwaitUnit.prems show ?case by (simp add: isSettled_def)
qed

lemma place_consistent:
  assumes "case r of (p', a') \<Rightarrow>
             if isSettled a' then \<not> commitInProgress p'
             else commitInProgress p' \<and> inCriticalSection a'"
  shows "consistent (place r [])"
  using assms by (cases r) (auto simp: place_def consistent_def)

lemma advance_rejected:
  assumes "commitInProgress p"
  shows "advance (performCommit ckey triggeredBy) p =
           (if triggeredBy = ''manual''
            then p\<lparr>notices := notices p @ [''Commit already in progress'']\<rparr> else p,
            resolved ())"
  using assms by (simp add: performCommit_def newNotice_def)

lemma deliver_rejected:
  assumes "commitInProgress (plugin s)"
  shows "deliver ckey (Invoke triggeredBy) s =
           s\<lparr>plugin :=
               (if triggeredBy = ''manual''
                then (plugin s)\<lparr>notices := notices (plugin s) @ [''Commit already in progress'']\<rparr>
                else plugin s)\<rparr>"
  using assms by (simp add: deliver_def advance_rejected place_def isSettled_def)

lemma critical_AwaitStats:
  fixes k :: "error + FileDiffStat list \<Rightarrow> ('a, unit) Async"
  assumes "inCriticalSection (AwaitStats c m k)"
  shows "\<exists>b::('a, unit) Async. keepsGuard b \<and> k r = tryCatchFinally b catchCommit finallyCommit"
proof -
  from assms obtain b :: "('a, unit) Async" where b: "keepsGuard b"
    "AwaitStats c m k = tryCatchFinally b catchCommit finallyCommit"
    by (auto simp: inCriticalSection_def)
  then show ?thesis by (cases b) auto
qed

lemma critical_AwaitUnit:
  fixes k :: "error + unit \<Rightarrow> ('a, unit) Async"
  assumes "inCriticalSection (AwaitUnit c m k)"
  shows "\<exists>b::('a, unit) Async. keepsGuard b \<and> k r = tryCatchFinally b catchCommit finallyCommit"
proof -
  from assms obtain b :: "('a, unit) Async" where b: "keepsGuard b"
    "AwaitUnit c m k = tryCatchFinally b catchCommit finallyCommit"
    by (auto simp: inCriticalSection_def)
  then show ?thesis by (cases b) auto
qed

text \<open>Every event keeps the guard true exactly while one invocation is suspended.\<close>

lemma consistent_deliver:
  fixes s :: "'a EventLoop"
  assumes "consistent s"
  shows "consistent (deliver ckey ev s)"
proof (cases "commitInProgress (plugin s)")
  case False
  with assms have empty: "suspended s = []" by (simp add: consistent_def)
  show ?thesis
  proof (cases ev)
    case (Invoke triggeredBy)
    show ?thesis
    proof (cases "gitEngine (plugin s)")
      case None
      with False empty Invoke show ?thesis
        by (simp add: deliver_def performCommit_def place_def isSettled_def consistent_def)
    next
      case (Some engine)
      have "consistent
              (place (advance (tryCatchFinally (tryCommit ckey engine triggeredBy) catchCommit finallyCommit)
                        ((plugin s)\<lparr>commitInProgress := True\<rparr>)) [])"
        by (rule place_consistent, rule advance_critical) (simp_all add: keepsGuard_tryCommit)
      with False empty Invoke Some show ?thesis
        by (simp add: deliver_def performCommit_def finallyCommit_def)
    qed
  next
    case (StatsSettled i r)
    with empty assms show ?thesis by (simp add: deliver_def)
  next
    case (UnitSettled i r)
    with empty assms show ?thesis by (simp add: deliver_def)
  next
    case (SettingsChanged newSettings)
    with assms show ?thesis by (simp add: deliver_def consistent_def)
  qed
next
  case True
  with assms obtain a where a: "suspended s = [a]" "inCriticalSection a"
    by (auto simp: consistent_def)
  show ?thesis
  proof (cases ev)
    case (Invoke triggeredBy)
    with True assms show ?thesis
      by (simp add: deliver_rejected consistent_def)
  next
    case (StatsSettled i r)
    show ?thesis
    proof (cases "i = 0 \<and> (\<exists>c m k. a = AwaitStats c m k)")
      case False
      with assms a StatsSettled show ?thesis
        by (cases a) (auto simp: deliver_def)
    next
      case yes: True
      then obtain c m k where k: "a = AwaitStats c m k" by blast
      from critical_AwaitStats [OF a(2) [unfolded k], of r] obtain b :: "('a, unit) Async" where
        b: "keepsGuard b" "k r = tryCatchFinally b catchCommit finallyCommit" by blast
      have "consistent (place (advance (k r) (plugin s)) [])"
        unfolding b(2) by (rule place_consistent, rule advance_critical) (simp_all add: b(1) True)
      with yes a k StatsSettled show ?thesis
        by (simp add: deliver_def withoutTask_def)
    qed
  next
    case (UnitSettled i r)
    show ?thesis
    proof (cases "i = 0 \<and> (\<exists>c m k. a = AwaitUnit c m k)")
      case False
      with assms a UnitSettled show ?thesis
        by (cases a) (auto simp: deliver_def)
    next
      case yes: True
      then obtain c m k where k: "a = AwaitUnit c m k" by blast
      from critical_AwaitUnit [OF a(2) [unfolded k], of r] obtain b :: "('a, unit) Async" where
        b: "keepsGuard b" "k r = tryCatchFinally b catchCommit finallyCommit" by blast
      have "consistent (place (advance (k r) (plugin s)) [])"
        unfolding b(2) by (rule place_consistent, rule advance_critical) (simp_all add: b(1) True)
      with yes a k UnitSettled show ?thesis
        by (simp add: deliver_def withoutTask_def)
    qed
  next
    case (SettingsChanged newSettings)
    with assms show ?thesis by (simp add: deliver_def consistent_def)
  qed
qed

lemma consistent_deliverAll:
  "consistent s \<Longrightarrow> consistent (deliverAll ckey evs s)"
  unfolding deliverAll_def
  by (induction evs arbitrary: s) (simp_all add: consistent_deliver)

lemma consistent_bounds:
  assumes "consistent s"
  shows "length (suspended s) \<le> 1 \<and> commitInProgress (plugin s) = (suspended s \<noteq> [])"
  using assms by (auto simp: consistent_def split: if_splits)

lemma run_rejected:
  assumes "commitInProgress p"
  shows "run (performCommit ckey triggeredBy) p =
           (Inr (), if triggeredBy = ''manual''
                    then p\<lparr>notices := notices p @ [''Commit already in progress'']\<rparr> else p)"
  using assms by (simp add: performCommit_def newNotice_def)

lemma run_releases:
  assumes "\<not> commitInProgress p"
  shows "\<not> commitInProgress (snd (run (performCommit ckey triggeredBy) p))"
  using assms
  by (simp add: performCommit_def run_tryCatchFinally finallyCommit_def split: option.splits prod.splits)

lemma exampleLoop_run:
  "calls (plugin (deliverAll byteOrder exampleEvents exampleLoop))
     = [Call_getDiffStats, Call_stageAndCommit ''chore: update .env, note.md'']
   \<and> notices (plugin (deliverAll byteOrder exampleEvents exampleLoop))
     = [''Commit already in progress'', ''Permission denied. Check file permissions.'']
   \<and> suspended (deliverAll byteOrder exampleEvents exampleLoop) = []"
  by (simp add: deliverAll_def exampleEvents_def exampleLoop_def deliver_def place_def isSettled_def
      withoutTask_def performCommit_def tryCommit_def awaitStats_def awaitUnit_def
      filterFilesBySettings_def performBatchCommit_def examplePlugin_def exampleEngine_def
      exampleStats_def newNotice_def consoleLog_def catchCommit_def finallyCommit_def startsWith_def
      buildCommitMessage_def sortByPath_def array_sort_def localeCompare_def byteOrder_def
      formatFileName_def hasNetDeletions_def)

subsection \<open>The guard\<close>

text \<open>
  Claim C1. Start the event loop with the guard \<open>commitInProgress\<close> false and no
  invocation suspended, and let invocations of \<open>performCommit\<close>, settlements of engine
  calls and changes of the settings arrive in any order, the engine giving or throwing
  what it likes. Then at most one invocation is ever suspended, and the guard is true
  exactly while one is: once the invocation that took the guard has settled, by success
  or by an error thrown at any stage, the guard is false again. An invocation that
  arrives while the guard is true changes nothing but the notices, and those on a manual
  trigger only: it issues no call to the engine, suspends nothing and leaves the guard
  to the invocation that holds it. The same holds when the commit runs with nothing in
  between: an invocation that finds the guard true returns the plugin as it was, but for
  the notice, and one that finds it false leaves it false.
\<close>

theorem commit_mutual_exclusion:
  assumes "\<not> commitInProgress (plugin s0)" and "suspended s0 = []"
  shows "length (suspended (deliverAll ckey evs s0)) \<le> 1
         \<and> commitInProgress (plugin (deliverAll ckey evs s0)) = (suspended (deliverAll ckey evs s0) \<noteq> [])
         \<and> (commitInProgress (plugin (deliverAll ckey evs s0)) \<longrightarrow>
              deliver ckey (Invoke triggeredBy) (deliverAll ckey evs s0) =
                (deliverAll ckey evs s0)
                  \<lparr>plugin :=
                     (if triggeredBy = ''manual''
                      then (plugin (deliverAll ckey evs s0))
                             \<lparr>notices := notices (plugin (deliverAll ckey evs s0))
                                          @ [''Commit already in progress'']\<rparr>
                      else plugin (deliverAll ckey evs s0))\<rparr>)
         \<and> (\<forall>p. commitInProgress p \<longrightarrow>
                run (performCommit ckey triggeredBy) p =
                  (Inr (), if triggeredBy = ''manual''
                           then p\<lparr>notices := notices p @ [''Commit already in progress'']\<rparr> else p))
         \<and> (\<forall>p::'a LocalGitPlugin. \<not> commitInProgress p \<longrightarrow>
                \<not> commitInProgress (snd (run (performCommit ckey triggeredBy) p)))"
proof -
  have "consistent s0" using assms by (simp add: consistent_def)
  then have c: "consistent (deliverAll ckey evs s0)" by (rule consistent_deliverAll)
  show ?thesis
    using consistent_bounds [OF c] deliver_rejected [of "deliverAll ckey evs s0" ckey triggeredBy]
      run_rejected [of _ ckey triggeredBy] run_releases [of _ ckey triggeredBy]
    by blast
qed

theorem commit_mutual_exclusion_witness:
  "\<not> commitInProgress (plugin exampleLoop)
   \<and> suspended exampleLoop = []
   \<and> calls (plugin (deliverAll byteOrder exampleEvents exampleLoop))
       = [Call_getDiffStats, Call_stageAndCommit ''chore: update .env, note.md'']
   \<and> notices (plugin (deliverAll byteOrder exampleEvents exampleLoop))
       = [''Commit already in progress'', ''Permission denied. Check file permissions.'']
   \<and> \<not> commitInProgress (plugin (deliverAll byteOrder exampleEvents exampleLoop))
   \<and> commitInProgress (plugin (deliverAll byteOrder (take 3 exampleEvents) exampleLoop))
   \<and> deliver byteOrder (Invoke ''idle'') (deliverAll byteOrder (take 3 exampleEvents) exampleLoop)
       = deliverAll byteOrder (take 3 exampleEvents) exampleLoop
   \<and> commitInProgress (examplePlugin True Hidden_group True)
   \<and> run (performCommit byteOrder ''manual'') (examplePlugin True Hidden_group True)
       = (Inr (), (examplePlugin True Hidden_group True)\<lparr>notices := [''Commit already in progress'']\<rparr>)
   \<and> \<not> commitInProgress
         (snd (run (performCommit byteOrder ''manual'') (examplePlugin False Hidden_group False)))"
proof -
  have i: "\<not> commitInProgress (plugin exampleLoop)" "suspended exampleLoop = []"
    by (simp_all add: exampleLoop_def examplePlugin_def)
  have busy: "suspended (deliverAll byteOrder (take 3 exampleEvents) exampleLoop) \<noteq> []"
    by (simp add: deliverAll_def exampleEvents_def exampleLoop_def deliver_def place_def
        isSettled_def withoutTask_def performCommit_def tryCommit_def awaitStats_def awaitUnit_def
        filterFilesBySettings_def performBatchCommit_def examplePlugin_def exampleEngine_def
        exampleStats_def newNotice_def)
  note all = commit_mutual_exclusion [OF i, of byteOrder exampleEvents "''idle''"]
  note three = commit_mutual_exclusion [OF i, of byteOrder "take 3 exampleEvents" "''idle''"]
  have settled: "\<not> commitInProgress (plugin (deliverAll byteOrder exampleEvents exampleLoop))"
    using all [THEN conjunct2, THEN conjunct1] exampleLoop_run by simp
  have guarded: "commitInProgress (plugin (deliverAll byteOrder (take 3 exampleEvents) exampleLoop))"
    using three [THEN conjunct2, THEN conjunct1] busy by simp
  have "deliver byteOrder (Invoke ''idle'') (deliverAll byteOrder (take 3 exampleEvents) exampleLoop)
         = (deliverAll byteOrder (take 3 exampleEvents) exampleLoop)
             \<lparr>plugin := plugin (deliverAll byteOrder (take 3 exampleEvents) exampleLoop)\<rparr>"
    using three [THEN conjunct2, THEN conjunct2, THEN conjunct1, rule_format, OF guarded]
    by (simp only: list.inject char.inject simp_thms if_False)
  then have rejected:
      "deliver byteOrder (Invoke ''idle'') (deliverAll byteOrder (take 3 exampleEvents) exampleLoop)
         = deliverAll byteOrder (take 3 exampleEvents) exampleLoop"
    by simp
  have held: "commitInProgress (examplePlugin True Hidden_group True)"
    by (simp add: examplePlugin_def)
  have "run (performCommit byteOrder ''manual'') (examplePlugin True Hidden_group True)
          = (Inr (), (examplePlugin True Hidden_group True)
                       \<lparr>notices := notices (examplePlugin True Hidden_group True)
                                    @ [''Commit already in progress'']\<rparr>)"
    using commit_mutual_exclusion [OF i, of byteOrder exampleEvents "''manual''",
        THEN conjunct2, THEN conjunct2, THEN conjunct2, THEN conjunct1, rule_format, OF held]
    by simp
  then have refused:
    "run (performCommit byteOrder ''manual'') (examplePlugin True Hidden_group True)
       = (Inr (), (examplePlugin True Hidden_group True)\<lparr>notices := [''Commit already in progress'']\<rparr>)"
    by (simp add: examplePlugin_def)
  have free: "\<not> commitInProgress (examplePlugin False Hidden_group False)"
    by (simp add: examplePlugin_def)
  have released: "\<not> commitInProgress
         (snd (run (performCommit byteOrder ''manual'') (examplePlugin False Hidden_group False)))"
    by (rule commit_mutual_exclusion [OF i, of byteOrder exampleEvents "''manual''",
        THEN conjunct2, THEN conjunct2, THEN conjunct2, THEN conjunct2, rule_format, OF free])
  show ?thesis
    apply (rule conjI [OF i(1)])
    apply (rule conjI [OF i(2)])
    apply (rule conjI [OF exampleLoop_run [THEN conjunct1]])
    apply (rule conjI [OF exampleLoop_run [THEN conjunct2, THEN conjunct1]])
    apply (rule conjI [OF settled])
    apply (rule conjI [OF guarded])
    apply (rule conjI [OF rejected])
    apply (rule conjI [OF held])
    apply (rule conjI [OF refused])
    apply (rule released)
    done
qed

subsection \<open>Batch commits with hidden files apart\<close>

text \<open>
  Claim C5, as the specification states it, has the hidden subset committed whenever it
  is not empty. When the commit of the regular subset throws, \<open>performBatchCommit\<close> ends
  with that error and the hidden subset is not committed.
\<close>

theorem performBatchCommit_separate_counterexample:
  "hidden (categorizeFiles mixedStats) \<noteq> []
   \<and> calls (snd (run (performBatchCommit byteOrder mixedStats ''interval'')
                   (examplePlugin False Hidden_separate True)))
       = [Call_stageAndCommitFiles [''b.md'', ''a.md''] ''chore: update a.md, b.md'']
   \<and> fst (run (performBatchCommit byteOrder mixedStats ''interval'')
            (examplePlugin False Hidden_separate True))
       = Inl ''permission denied''"
  by (simp add: examplePlugin_def callEngine_simp exampleEngine_def mixedStats_def awaitUnit_def
      performBatchCommit_def categorizeFiles_def isHiddenPath_def buildCommitMessage_def
      sortByPath_def array_sort_def localeCompare_def byteOrder_def formatFileName_def
      hasNetDeletions_def startsWith_def)

lemma performBatchCommit_separate_trace:
  assumes "gitEngine p = Some engine" and "hiddenFilesHandling (settings p) = Hidden_separate"
  shows "calls (snd (run (performBatchCommit ckey stats triggeredBy) p)) =
           calls p
           @ (if regular (categorizeFiles stats) \<noteq> []
              then [Call_stageAndCommitFiles (map path (regular (categorizeFiles stats)))
                      (buildCommitMessage ckey
                         \<lparr>files = regular (categorizeFiles stats),
                          maxFiles = Some (maxFilesInCommitMessage (settings p))\<rparr>)]
              else [])
           @ (if hidden (categorizeFiles stats) \<noteq> []
                 \<and> (regular (categorizeFiles stats) = []
                    \<or> \<not> isl (fst (stageAndCommitFiles engine
                                   (map path (regular (categorizeFiles stats)))
                                   (buildCommitMessage ckey
                                      \<lparr>files = regular (categorizeFiles stats),
                                       maxFiles = Some (maxFilesInCommitMessage (settings p))\<rparr>)
                                   (world p))))
              then [Call_stageAndCommitFiles (map path (hidden (categorizeFiles stats)))
                      (buildHiddenFilesCommitMessage ckey (hidden (categorizeFiles stats)))]
              else [])"
  using assms
  by (auto simp: performBatchCommit_def Let_def run_andThen awaitUnit_def callEngine_def
      newNotice_def consoleLog_def split: prod.splits sum.splits)

text \<open>
  Claim C5, amended. In batch mode with \<open>hiddenFilesHandling = "separate"\<close>,
  \<open>performBatchCommit\<close> issues at most two calls to the engine, in this order: one
  \<open>stageAndCommitFiles\<close> for the paths of the regular subset with the batch message,
  exactly when the regular subset is not empty; then one \<open>stageAndCommitFiles\<close> for the
  paths of the hidden subset with the hidden-files message, exactly when the hidden
  subset is not empty and the commit of the regular subset, if there was one, did not
  throw.
\<close>

theorem performBatchCommit_separate_calls:
  assumes "gitEngine p = Some engine" and "hiddenFilesHandling (settings p) = Hidden_separate"
  shows "calls (snd (run (performBatchCommit ckey stats triggeredBy) p)) =
           calls p
           @ (if regular (categorizeFiles stats) \<noteq> []
              then [Call_stageAndCommitFiles (map path (regular (categorizeFiles stats)))
                      (buildCommitMessage ckey
                         \<lparr>files = regular (categorizeFiles stats),
                          maxFiles = Some (maxFilesInCommitMessage (settings p))\<rparr>)]
              else [])
           @ (if hidden (categorizeFiles stats) \<noteq> []
                 \<and> (regular (categorizeFiles stats) = []
                    \<or> \<not> isl (fst (stageAndCommitFiles engine
                                   (map path (regular (categorizeFiles stats)))
                                   (buildCommitMessage ckey
                                      \<lparr>files = regular (categorizeFiles stats),
                                       maxFiles = Some (maxFilesInCommitMessage (settings p))\<rparr>)
                                   (world p))))
              then [Call_stageAndCommitFiles (map path (hidden (categorizeFiles stats)))
                      (buildHiddenFilesCommitMessage ckey (hidden (categorizeFiles stats)))]
              else [])
         \<and> length (calls (snd (run (performBatchCommit ckey stats triggeredBy) p)))
             \<le> length (calls p) + 2"
proof -
  note trace = performBatchCommit_separate_trace [OF assms, of ckey stats triggeredBy]
  have bound: "length (calls (snd (run (performBatchCommit ckey stats triggeredBy) p)))
          \<le> length (calls p) + 2"
    unfolding trace by simp
  show ?thesis
    apply (rule conjI [OF trace])
    apply (rule bound)
    done
qed

theorem performBatchCommit_separate_calls_witness:
  "gitEngine (examplePlugin True Hidden_separate True) = Some (exampleEngine True)
   \<and> hiddenFilesHandling (settings (examplePlugin True Hidden_separate True)) = Hidden_separate
   \<and> calls (snd (run (performBatchCommit byteOrder mixedStats ''interval'')
                   (examplePlugin True Hidden_separate True)))
       = [Call_stageAndCommitFiles [''b.md'', ''a.md''] ''chore: update a.md, b.md'',
          Call_stageAndCommitFiles [''.env''] ''chore: update hidden files (.env)'']"
proof -
  have e: "gitEngine (examplePlugin True Hidden_separate True) = Some (exampleEngine True)"
    by (simp add: examplePlugin_def)
  have h: "hiddenFilesHandling (settings (examplePlugin True Hidden_separate True)) = Hidden_separate"
    by (simp add: examplePlugin_def)
  have c: "categorizeFiles mixedStats =
             \<lparr>hidden = [mixedStats ! 1], regular = [mixedStats ! 0, mixedStats ! 2]\<rparr>"
    by (simp add: categorizeFiles_def mixedStats_def isHiddenPath_def startsWith_def)
  from performBatchCommit_separate_calls [OF e h, of byteOrder mixedStats "''interval''"] e h
  show ?thesis
    by (simp add: c)
      (simp add: examplePlugin_def exampleEngine_def mixedStats_def buildCommitMessage_def
        buildHiddenFilesCommitMessage_def sortByPath_def array_sort_def localeCompare_def
        byteOrder_def formatFileName_def hasNetDeletions_def)
qed

section \<open>What a batch commit stages\<close>

lemma stageAndCommit_repo:
  assumes "failure (repoState s) = None"
  shows "fst (GitEngine_stageAndCommit repoGit message s) = Inr ()
         \<and> repoState (snd (GitEngine_stageAndCommit repoGit message s)) =
             (repoState s)\<lparr>history := history (repoState s)
                              @ [(message, staged (repoState s) @ pendingPaths (repoState s))],
                           staged := [], modified := [], untracked := []\<rparr>"
  using assms
  by (simp add: GitEngine_stageAndCommit_def repoGit_def updateStatus_def Let_def)

lemma getDiffStats_repo_state:
  "repoState (snd (GitEngine_getDiffStats repoGit s)) = repoState s"
  by (simp add: GitEngine_getDiffStats_def repoGit_def handleError_def Let_def split: option.splits)

lemma batch_never_world:
  assumes eng: "gitEngine p = Some (gitEngineOn repoGit filterIgnored commitFiles)"
    and mode: "commitMode (settings p) = Mode_batch"
    and never: "hiddenFilesHandling (settings p) = Hidden_never"
    and idle: "\<not> commitInProgress p"
    and stats: "fst (GitEngine_getDiffStats repoGit (world p)) = Inr stats"
    and nonempty: "filter (\<lambda>stat. \<not> isHiddenPath (path stat)) stats \<noteq> []"
  shows "world (snd (run (performCommit ckey triggeredBy) p)) =
           snd (GitEngine_stageAndCommit repoGit
                  (buildCommitMessage ckey
                     \<lparr>files = filter (\<lambda>stat. \<not> isHiddenPath (path stat)) stats,
                      maxFiles = Some (maxFilesInCommitMessage (settings p))\<rparr>)
                  (snd (GitEngine_getDiffStats repoGit (world p))))"
  using assms
  by (simp add: performCommit_def run_tryCatchFinally tryCommit_def run_andThen awaitStats_def
      awaitUnit_def filterFilesBySettings_def performBatchCommit_def
      callEngine_simp gitEngineOn_def Let_def catchCommit_def finallyCommit_def newNotice_def
      consoleLog_def split: prod.splits sum.splits)

text \<open>
  Claim C10. \<open>stageAndCommit\<close> stages every pending change of the working tree, whatever
  the message: on a usable repository the commit it records holds what was staged before
  and every pending path. So in batch mode with \<open>hiddenFilesHandling = "never"\<close>, when
  some file that is not hidden has changed, \<open>performCommit\<close> records one commit whose
  message is built from the files that are not hidden and whose paths are all pending
  paths, the hidden ones among them.
\<close>

theorem batch_never_commits_hidden:
  assumes eng: "gitEngine p = Some (gitEngineOn repoGit filterIgnored commitFiles)"
    and mode: "commitMode (settings p) = Mode_batch"
    and never: "hiddenFilesHandling (settings p) = Hidden_never"
    and idle: "\<not> commitInProgress p"
    and ok: "failure (repoState (world p)) = None"
    and stats: "fst (GitEngine_getDiffStats repoGit (world p)) = Inr stats"
    and nonempty: "filter (\<lambda>stat. \<not> isHiddenPath (path stat)) stats \<noteq> []"
  shows "(\<forall>message.
            fst (GitEngine_stageAndCommit repoGit message (world p)) = Inr ()
            \<and> history (repoState (snd (GitEngine_stageAndCommit repoGit message (world p)))) =
                history (repoState (world p))
                @ [(message, staged (repoState (world p)) @ pendingPaths (repoState (world p)))])
         \<and> history (repoState (world (snd (run (performCommit ckey triggeredBy) p)))) =
             history (repoState (world p))
             @ [(buildCommitMessage ckey
                   \<lparr>files = filter (\<lambda>stat. \<not> isHiddenPath (path stat)) stats,
                    maxFiles = Some (maxFilesInCommitMessage (settings p))\<rparr>,
                 staged (repoState (world p)) @ pendingPaths (repoState (world p)))]
         \<and> (\<forall>h\<in>set (pendingPaths (repoState (world p))).
               isHiddenPath h \<longrightarrow>
               h \<in> set (snd (last (history (repoState (world (snd (run (performCommit ckey triggeredBy) p))))))))"
proof -
  let ?s1 = "snd (GitEngine_getDiffStats repoGit (world p))"
  have r1: "repoState ?s1 = repoState (world p)" by (rule getDiffStats_repo_state)
  have ok1: "failure (repoState ?s1) = None" using ok r1 by simp
  have a: "\<forall>message.
            fst (GitEngine_stageAndCommit repoGit message (world p)) = Inr ()
            \<and> history (repoState (snd (GitEngine_stageAndCommit repoGit message (world p)))) =
                history (repoState (world p))
                @ [(message, staged (repoState (world p)) @ pendingPaths (repoState (world p)))]"
    using stageAndCommit_repo [OF ok] by simp
  have b: "history (repoState (world (snd (run (performCommit ckey triggeredBy) p)))) =
             history (repoState (world p))
             @ [(buildCommitMessage ckey
                   \<lparr>files = filter (\<lambda>stat. \<not> isHiddenPath (path stat)) stats,
                    maxFiles = Some (maxFilesInCommitMessage (settings p))\<rparr>,
                 staged (repoState (world p)) @ pendingPaths (repoState (world p)))]"
    unfolding batch_never_world [OF eng mode never idle stats nonempty]
    using stageAndCommit_repo [OF ok1] r1 by simp
  have c: "\<forall>h\<in>set (pendingPaths (repoState (world p))).
               isHiddenPath h \<longrightarrow>
               h \<in> set (snd (last (history (repoState (world (snd (run (performCommit ckey triggeredBy) p)))))))"
    unfolding b by simp
  show ?thesis
    apply (rule conjI [OF a])
    apply (rule conjI [OF b])
    apply (rule c)
    done
qed

lemma getDiffStats_exampleRepo:
  "fst (GitEngine_getDiffStats repoGit (world exampleRepoPlugin)) =
     Inr (map zeroStat [''note.md'', ''.obsidian/workspace.json''])"
  by (simp add: GitEngine_getDiffStats_def repoGit_def exampleRepoPlugin_def exampleRepo_def
      falsy_def zeroStat_def)

theorem batch_never_commits_hidden_witness:
  "isHiddenPath ''.obsidian/workspace.json''
   \<and> pendingPaths (repoState (world exampleRepoPlugin)) = [''note.md'', ''.obsidian/workspace.json'']
   \<and> history (repoState (world (snd (run (performCommit byteOrder ''interval'') exampleRepoPlugin))))
       = [(''chore: update note.md'', [''note.md'', ''.obsidian/workspace.json''])]"
proof -
  have eng: "gitEngine exampleRepoPlugin
               = Some (gitEngineOn repoGit (\<lambda>stats s. (Inr stats, s)) (\<lambda>paths message s. (Inr (), s)))"
    by (simp add: exampleRepoPlugin_def)
  have mode: "commitMode (settings exampleRepoPlugin) = Mode_batch"
    by (simp add: exampleRepoPlugin_def)
  have never: "hiddenFilesHandling (settings exampleRepoPlugin) = Hidden_never"
    by (simp add: exampleRepoPlugin_def)
  have idle: "\<not> commitInProgress exampleRepoPlugin"
    by (simp add: exampleRepoPlugin_def)
  have ok: "failure (repoState (world exampleRepoPlugin)) = None"
    by (simp add: exampleRepoPlugin_def exampleRepo_def)
  have hid: "isHiddenPath ''.obsidian/workspace.json''" "\<not> isHiddenPath ''note.md''"
    by (simp_all add: isHiddenPath_def startsWith_def)
  have f: "filter (\<lambda>stat. \<not> isHiddenPath (path stat))
             (map zeroStat [''note.md'', ''.obsidian/workspace.json'']) = [zeroStat ''note.md'']"
    by (simp add: zeroStat_def isHiddenPath_def startsWith_def)
  have nonempty: "filter (\<lambda>stat. \<not> isHiddenPath (path stat))
             (map zeroStat [''note.md'', ''.obsidian/workspace.json'']) \<noteq> []"
    unfolding f by simp
  have pend: "pendingPaths (repoState (world exampleRepoPlugin)) = [''note.md'', ''.obsidian/workspace.json'']"
    by (simp add: exampleRepoPlugin_def exampleRepo_def pendingPaths_def)
  have msg: "buildCommitMessage byteOrder
               \<lparr>files = [zeroStat ''note.md''],
                maxFiles = Some (maxFilesInCommitMessage (settings exampleRepoPlugin))\<rparr>
             = ''chore: update note.md''"
    by (simp add: buildCommitMessage_def sortByPath_def array_sort_def zeroStat_def
        exampleRepoPlugin_def formatFileName_def hasNetDeletions_def)
  have st: "staged (repoState (world exampleRepoPlugin)) = []"
    "history (repoState (world exampleRepoPlugin)) = []"
    by (simp_all add: exampleRepoPlugin_def exampleRepo_def)
  note commits = batch_never_commits_hidden
         [OF eng mode never idle ok getDiffStats_exampleRepo nonempty, of byteOrder "''interval''",
          unfolded f msg pend st]
  from commits
  have "history (repoState (world (snd (run (performCommit byteOrder ''interval'') exampleRepoPlugin))))
          = [(''chore: update note.md'', [''note.md'', ''.obsidian/workspace.json''])]"
    by simp
  with hid pend show ?thesis by simp
qed

end
